theory Spec2Isabelle
  imports Main "HOL-Library.AList"
begin

section \<open>Go strings\<close>

text \<open>
  A Go string is a sequence of bytes; \<^typ>\<open>string\<close> is a list of 8-bit characters.
  The functions of package \<open>strings\<close> that \<open>multiarch_report.go\<close> calls are written out
  here. \<open>fmt.Sprintf("%s.%s", a, b)\<close> is \<open>a @ ''.'' @ b\<close>.
\<close>

definition HasPrefix :: "string \<Rightarrow> string \<Rightarrow> bool" where
  "HasPrefix s p = (take (length p) s = p)"

text \<open>\<open>strings.Contains(s, substr)\<close>: \<open>substr\<close> occurs in \<open>s\<close> at some position.\<close>

fun Contains :: "string \<Rightarrow> string \<Rightarrow> bool" where
  "Contains [] substr = (substr = [])"
| "Contains (c # s) substr = (HasPrefix (c # s) substr \<or> Contains s substr)"

text \<open>
  \<open>strings.ReplaceAll(s, old, new)\<close> for a non-empty \<open>old\<close> (the program passes the
  literal \<open>"operatorframework.io/arch."\<close>): the non-overlapping occurrences of \<open>old\<close>,
  found from the left, are replaced. Go's special case of an empty \<open>old\<close> never arises and
  is left as the identity.
\<close>

function ReplaceAll :: "string \<Rightarrow> string \<Rightarrow> string \<Rightarrow> string" where
  "ReplaceAll [] old new = []"
| "ReplaceAll (c # s) old new =
     (if old \<noteq> [] \<and> HasPrefix (c # s) old
      then new @ ReplaceAll (drop (length old) (c # s)) old new
      else c # ReplaceAll s old new)"
  by pat_completeness auto
termination
  by (relation "measure (\<lambda>(s, old, new). length s)") auto

text \<open>
  \<open>strings.Split(s, sep)\<close> for a non-empty \<open>sep\<close> (the program passes \<open>"."\<close>): the
  pieces of \<open>s\<close> between the occurrences of \<open>sep\<close>, found from the left; a string
  without \<open>sep\<close> gives the one-element list \<open>[s]\<close>.
\<close>

function Split :: "string \<Rightarrow> string \<Rightarrow> string list" where
  "Split [] sep = [[]]"
| "Split (c # s) sep =
     (if sep \<noteq> [] \<and> HasPrefix (c # s) sep
      then [] # Split (drop (length sep) (c # s)) sep
      else (case Split s sep of
              [] \<Rightarrow> [[c]]
            | piece # pieces \<Rightarrow> (c # piece) # pieces))"
  by pat_completeness auto
termination
  by (relation "measure (\<lambda>(s, sep). length s)") auto

section \<open>Go maps\<close>

text \<open>
  A Go \<open>map[string]T\<close> is modelled as an association list with one entry per key.
  Reading a missing key gives the zero value of \<open>T\<close> (the empty slice, the empty string);
  \<open>m[k] = v\<close> replaces the entry of \<open>k\<close> or adds one (\<^const>\<open>AList.update\<close>). Go leaves
  the order of \<open>range\<close> over a map unspecified; the model ranges in the order of the list,
  which is the order in which the keys were first stored.
\<close>

type_synonym 'v gomap = "(string \<times> 'v) list"

definition mapGet :: "'a list gomap \<Rightarrow> string \<Rightarrow> 'a list" where
  "mapGet m k = (case map_of m k of None \<Rightarrow> [] | Some v \<Rightarrow> v)"

definition mapKeys :: "'v gomap \<Rightarrow> string list" where
  "mapKeys m = map fst m"

section \<open>The data of a bundle\<close>

text \<open>
  The fields of \<open>v1alpha1.ClusterServiceVersion\<close> that the report reads:
  \<open>ObjectMeta.Name\<close>, \<open>ObjectMeta.Labels\<close>, \<open>ObjectMeta.Annotations\<close>,
  \<open>Spec.RelatedImages[i].Image\<close> and, for every entry of
  \<open>Spec.InstallStrategy.StrategySpec.DeploymentSpecs\<close>, the \<open>Image\<close> of each of its
  \<open>Spec.Template.Spec.Containers\<close>.
\<close>

record ClusterServiceVersion =
  Name :: string
  Labels :: "string gomap"
  Annotations :: "string gomap"
  DeploymentSpecs :: "string list list"
  RelatedImages :: "string list"

text \<open>The fields of \<open>bundles.Column\<close> that the report reads or writes.\<close>

record Column =
  PackageName :: string
  IsHeadOfChannel :: bool
  AuditErrors :: "string list"
  BundleCSV :: ClusterServiceVersion

record BindFlags =
  IndexImage :: string
  ContainerEngine :: string

record DockerInspect =
  ID :: string
  Created :: string

record Report =
  Flags :: BindFlags
  IndexImageInspect :: DockerInspect
  GenerateAt :: string
  Columns :: "Column list"

record MultiArchBundle =
  HasDisconnectAnnotation :: bool
  InfraLabels :: "string list"
  RelateImages :: "string list gomap"
  InstallImages :: "string list gomap"
  BundleData :: Column
  Validations :: "string list"
  Supported :: "string gomap"
  HasMultArchSupport :: bool

text \<open>\<open>MultiArchPkg\<close>; its field \<open>Name\<close> is \<open>PkgName\<close> here.\<close>

record MultiArchPkg =
  PkgName :: string
  Bundles :: "MultiArchBundle list"

record MultiArchReport =
  ImageName :: string
  ImageID :: string
  ImageHash :: string
  ImageBuild :: string
  GeneratedAt :: string
  Packages :: "MultiArchPkg list"

text \<open>\<open>MultiArchBundle{BundleData: bundle}\<close>: every other field has its zero value.\<close>

definition newMultiArchBundle :: "Column \<Rightarrow> MultiArchBundle" where
  "newMultiArchBundle bundle =
     \<lparr>HasDisconnectAnnotation = False, InfraLabels = [], RelateImages = [],
      InstallImages = [], BundleData = bundle, Validations = [], Supported = [],
      HasMultArchSupport = False\<rparr>"

section \<open>What the report takes from package \<open>pkg\<close>\<close>

text \<open>
  \<open>pkg.RunDockerManifestInspect\<close> runs an external tool, so two calls with the same
  arguments may answer differently. It is a parameter: the answer to the \<open>n\<close>-th call
  made so far, for an image and a container engine, is either the error's text (\<open>Inl\<close>) or
  the \<open>(SO, Architecture)\<close> pairs of \<open>ManifestData\<close> (\<open>Inr\<close>). The calls made are
  kept in a log of \<open>(image, engine)\<close> pairs, threaded through every function that
  inspects. The constant \<open>pkg.InfrastructureAnnotation\<close> and Go's quoting of a string
  under \<open>%q\<close> (\<open>strconv.Quote\<close>) are parameters as well. Writes to the log of
  \<open>logrus\<close> are left out.
\<close>

type_synonym inspector = "nat \<Rightarrow> string \<Rightarrow> string \<Rightarrow> string + (string \<times> string) list"

type_synonym calls = "(string \<times> string) list"

record env =
  Inspect :: inspector
  InfrastructureAnnotation :: string
  Quote :: "string \<Rightarrow> string"

definition RunDockerManifestInspect ::
  "env \<Rightarrow> string \<Rightarrow> string \<Rightarrow> calls \<Rightarrow> (string + (string \<times> string) list) \<times> calls" where
  "RunDockerManifestInspect e img engine cs =
     (Inspect e (length cs) img engine, cs @ [(img, engine)])"

section \<open>Architecture extraction\<close>

definition addInfraLabels :: "MultiArchBundle \<Rightarrow> MultiArchBundle" where
  "addInfraLabels mb =
     foldl (\<lambda>mb (k, v).
              if Contains k ''arch'' \<and> v = ''supported''
              then mb\<lparr>InfraLabels := InfraLabels mb @ [k]\<rparr> else mb)
       mb (Labels (BundleCSV (BundleData mb)))"

definition annotationValue :: "string gomap \<Rightarrow> string \<Rightarrow> string" where
  "annotationValue m k = (case map_of m k of None \<Rightarrow> [] | Some v \<Rightarrow> v)"

definition addDisconnectAnnotationValue :: "env \<Rightarrow> MultiArchBundle \<Rightarrow> MultiArchBundle" where
  "addDisconnectAnnotationValue e mb =
     (let infra = annotationValue (Annotations (BundleCSV (BundleData mb)))
                    (InfrastructureAnnotation e)
      in if Contains infra ''Disconnected'' \<or> Contains infra ''disconnected''
         then mb\<lparr>HasDisconnectAnnotation := True\<rparr> else mb)"

text \<open>
  Lines 125 to 129 and 150 to 154: one platform string \<open>"<SO>.<Architecture>"\<close> is
  appended to the image's list for every entry of \<open>ManifestData\<close>.
\<close>

definition appendPlatforms ::
  "string \<Rightarrow> (string \<times> string) list \<Rightarrow> string list gomap \<Rightarrow> string list gomap" where
  "appendPlatforms img manifest m =
     foldl (\<lambda>m (so, arch). AList.update img (mapGet m img @ [so @ ''.'' @ arch]) m)
       m manifest"

definition appendAuditError :: "string \<Rightarrow> MultiArchBundle \<Rightarrow> MultiArchBundle" where
  "appendAuditError err mb =
     mb\<lparr>BundleData := (BundleData mb)\<lparr>AuditErrors := AuditErrors (BundleData mb) @ [err]\<rparr>\<rparr>"

text \<open>The body of the loop over the containers of \<open>addDataFromInstallImages\<close>.\<close>

definition installImage ::
  "env \<Rightarrow> string \<Rightarrow> MultiArchBundle \<times> calls \<Rightarrow> string \<Rightarrow> MultiArchBundle \<times> calls" where
  "installImage e engine st img =
     (case st of (mb, cs) \<Rightarrow>
        (case RunDockerManifestInspect e img engine cs of
           (Inr manifest, cs1) \<Rightarrow>
             (mb\<lparr>InstallImages := appendPlatforms img manifest (InstallImages mb)\<rparr>, cs1)
         | (Inl _, cs1) \<Rightarrow>
             (case RunDockerManifestInspect e img engine cs1 of
                (Inl err, cs2) \<Rightarrow> (appendAuditError err mb, cs2)
              | (Inr manifest, cs2) \<Rightarrow>
                  (mb\<lparr>InstallImages := appendPlatforms img manifest (InstallImages mb)\<rparr>,
                   cs2))))"

definition addDataFromInstallImages ::
  "env \<Rightarrow> Report \<Rightarrow> MultiArchBundle \<times> calls \<Rightarrow> MultiArchBundle \<times> calls" where
  "addDataFromInstallImages e bundlesReport st =
     (case st of (mb, cs) \<Rightarrow>
        foldl (\<lambda>st containers.
                 foldl (installImage e (ContainerEngine (Flags bundlesReport))) st containers)
          (mb\<lparr>InstallImages := []\<rparr>, cs)
          (DeploymentSpecs (BundleCSV (BundleData mb))))"

definition inspectFailedMsg :: "string \<Rightarrow> string \<Rightarrow> string" where
  "inspectFailedMsg img err =
     ''unable to inspect manifests for the image ('' @ img @ '') : '' @ err"

text \<open>The body of the loop of \<open>addDataFromRelateImages\<close>.\<close>

definition relateImage ::
  "env \<Rightarrow> string \<Rightarrow> MultiArchBundle \<times> calls \<Rightarrow> string \<Rightarrow> MultiArchBundle \<times> calls" where
  "relateImage e engine st img =
     (case st of (mb, cs) \<Rightarrow>
        (case RunDockerManifestInspect e img engine cs of
           (Inr manifest, cs1) \<Rightarrow>
             (mb\<lparr>RelateImages := appendPlatforms img manifest (RelateImages mb)\<rparr>, cs1)
         | (Inl _, cs1) \<Rightarrow>
             (case RunDockerManifestInspect e img engine cs1 of
                (Inl err, cs2) \<Rightarrow>
                  (let mb1 = appendAuditError err mb
                   in mb1\<lparr>Validations := Validations mb1 @ [inspectFailedMsg img err]\<rparr>,
                   cs2)
              | (Inr manifest, cs2) \<Rightarrow>
                  (mb\<lparr>RelateImages := appendPlatforms img manifest (RelateImages mb)\<rparr>,
                   cs2))))"

definition addDataFromRelateImages ::
  "env \<Rightarrow> Report \<Rightarrow> MultiArchBundle \<times> calls \<Rightarrow> MultiArchBundle \<times> calls" where
  "addDataFromRelateImages e bundlesReport st =
     (case st of (mb, cs) \<Rightarrow>
        foldl (relateImage e (ContainerEngine (Flags bundlesReport)))
          (mb\<lparr>RelateImages := []\<rparr>, cs)
          (RelatedImages (BundleCSV (BundleData mb))))"

text \<open>
  Lines 278 to 286 and 290 to 298: the token of one platform string, stored in
  \<open>Supported\<close> under itself. \<open>strings.Split(s, ".")[1]\<close> is read only when \<open>s\<close>
  contains \<open>"."\<close>, where \<open>Split\<close> has at least two pieces.
\<close>

definition supportPlatform :: "string gomap \<Rightarrow> string \<Rightarrow> string gomap" where
  "supportPlatform supp soplataform =
     (if length soplataform > 0
      then (if Contains soplataform ''.''
            then AList.update (Split soplataform ''.'' ! 1) (Split soplataform ''.'' ! 1) supp
            else AList.update soplataform soplataform supp)
      else supp)"

definition supportImages :: "string gomap \<Rightarrow> string list gomap \<Rightarrow> string gomap" where
  "supportImages supp images =
     foldl (\<lambda>supp (img, v). foldl supportPlatform supp v) supp images"

definition supportLabel :: "string gomap \<Rightarrow> string \<Rightarrow> string gomap" where
  "supportLabel supp v =
     (let label = ReplaceAll v ''operatorframework.io/arch.'' '''' in AList.update label label supp)"

definition checkSupport :: "MultiArchBundle \<Rightarrow> MultiArchBundle" where
  "checkSupport mb =
     mb\<lparr>Supported :=
          supportImages
            (supportImages (foldl supportLabel (Supported mb) (InfraLabels mb))
               (RelateImages mb))
            (InstallImages mb)\<rparr>"

section \<open>Validation\<close>

definition shaMsg :: "string \<Rightarrow> string \<Rightarrow> string \<Rightarrow> string" where
  "shaMsg role name img =
     ''[bundle '' @ name @ '']: '' @ role @ '' image ('' @ img @ '') is not set using SHA''"

definition checkSHAImages :: "string \<Rightarrow> string \<Rightarrow> string list \<Rightarrow> string list \<Rightarrow> string list" where
  "checkSHAImages role name vs images =
     foldl (\<lambda>vs img. if \<not> Contains img ''@sha256''
                        then vs @ [shaMsg role name img] else vs)
       vs images"

definition checkSHA :: "MultiArchBundle \<Rightarrow> MultiArchBundle" where
  "checkSHA mb =
     (if HasMultArchSupport mb
      then (let name = Name (BundleCSV (BundleData mb));
                vs1 = checkSHAImages ''releated'' name (Validations mb) (mapKeys (RelateImages mb));
                vs2 = checkSHAImages ''install'' name vs1 (mapKeys (InstallImages mb))
            in mb\<lparr>Validations := vs2\<rparr>)
      else mb)"

definition archMsg :: "string \<Rightarrow> string \<Rightarrow> string \<Rightarrow> string \<Rightarrow> string" where
  "archMsg role name img su =
     ''[bundle '' @ name @ '']: '' @ role @ '' image ('' @ img
       @ '') is missing manifest archetype for '' @ su"

text \<open>The loop over \<open>arc\<close> that sets \<open>found\<close> and breaks.\<close>

definition foundIn :: "string list \<Rightarrow> string \<Rightarrow> bool" where
  "foundIn arc su = list_ex (\<lambda>t. Contains t su) arc"

definition checkMissingImages ::
  "string \<Rightarrow> string \<Rightarrow> string list \<Rightarrow> string list \<Rightarrow> string list gomap \<Rightarrow> string list" where
  "checkMissingImages role name sups vs images =
     foldl (\<lambda>vs (img, arc).
              foldl (\<lambda>vs su. if \<not> foundIn arc su
                             then vs @ [archMsg role name img su] else vs)
                vs sups)
       vs images"

definition checkMissingArchtype :: "MultiArchBundle \<Rightarrow> MultiArchBundle" where
  "checkMissingArchtype mb =
     (if HasMultArchSupport mb
      then (let name = Name (BundleCSV (BundleData mb));
                sups = mapKeys (Supported mb);
                vs1 = checkMissingImages ''related'' name sups (Validations mb) (RelateImages mb);
                vs2 = checkMissingImages ''install'' name sups vs1 (InstallImages mb)
            in mb\<lparr>Validations := vs2\<rparr>)
      else mb)"

definition checkAnnotation :: "env \<Rightarrow> MultiArchBundle \<Rightarrow> MultiArchBundle" where
  "checkAnnotation e mb =
     (if HasMultArchSupport mb \<and> \<not> HasDisconnectAnnotation mb
      then mb\<lparr>Validations := Validations mb @
             [''found multiacrh support for the bundle (''
                @ Quote e (Name (BundleCSV (BundleData mb)))
                @ ''), however it is missing the CSV disconnected annotation'']\<rparr>
      else mb)"

text \<open>\<open>%q\<close> of a slice of strings: the quoted elements, separated by spaces, in brackets.\<close>

fun joinSpace :: "string list \<Rightarrow> string" where
  "joinSpace [] = []"
| "joinSpace [x] = x"
| "joinSpace (x # y # ys) = x @ '' '' @ joinSpace (y # ys)"

definition quoteSlice :: "env \<Rightarrow> string list \<Rightarrow> string" where
  "quoteSlice e xs = ''['' @ joinSpace (map (Quote e) xs) @ '']''"

definition checkLabels :: "env \<Rightarrow> MultiArchBundle \<Rightarrow> MultiArchBundle" where
  "checkLabels e mb =
     (if HasMultArchSupport mb
      then (let notFoundLabel =
                  foldl (\<lambda>nf supported. if \<not> foundIn (InfraLabels mb) supported
                                         then nf @ [supported] else nf)
                    [] (mapKeys (Supported mb))
            in if length notFoundLabel > 0
               then mb\<lparr>Validations := Validations mb @
                      [''[bundle '' @ Name (BundleCSV (BundleData mb))
                         @ '']: missing label for '' @ quoteSlice e notFoundLabel]\<rparr>
               else mb)
      else mb)"

definition validate :: "env \<Rightarrow> MultiArchBundle \<Rightarrow> MultiArchBundle" where
  "validate e mb = checkMissingArchtype (checkAnnotation e (checkLabels e (checkSHA mb)))"

section \<open>The report\<close>

text \<open>Lines 76 to 81: the extraction of one bundle.\<close>

definition extractBundle :: "env \<Rightarrow> Report \<Rightarrow> Column \<Rightarrow> calls \<Rightarrow> MultiArchBundle \<times> calls" where
  "extractBundle e bundlesReport bundle cs =
     (let mb = addDisconnectAnnotationValue e (addInfraLabels (newMultiArchBundle bundle));
          st = addDataFromRelateImages e bundlesReport
                 (addDataFromInstallImages e bundlesReport (mb, cs))
      in (checkSupport (fst st), snd st))"

text \<open>Lines 82 to 84.\<close>

definition setMultArchSupport :: "MultiArchBundle \<Rightarrow> MultiArchBundle" where
  "setMultArchSupport mb =
     (if length (Supported mb) > 1 then mb\<lparr>HasMultArchSupport := True\<rparr> else mb)"

text \<open>Lines 76 to 85: the audit of one bundle.\<close>

definition auditBundle :: "env \<Rightarrow> Report \<Rightarrow> Column \<Rightarrow> calls \<Rightarrow> MultiArchBundle \<times> calls" where
  "auditBundle e bundlesReport bundle cs =
     (let st = extractBundle e bundlesReport bundle cs
      in (validate e (setMultArchSupport (fst st)), snd st))"

definition mapHeadBundlesPerPackageWith :: "Column list \<Rightarrow> Column list gomap" where
  "mapHeadBundlesPerPackageWith bundlesReport =
     foldl (\<lambda>m v. if IsHeadOfChannel v
                   then AList.update (PackageName v) (mapGet m (PackageName v) @ [v]) m
                   else m)
       [] bundlesReport"

text \<open>The body of the inner loop of \<open>NewMultiArchReport\<close>, lines 70 to 86.\<close>

definition reportBundle ::
  "env \<Rightarrow> Report \<Rightarrow> string \<Rightarrow> string \<Rightarrow> MultiArchBundle list gomap \<times> calls \<Rightarrow> Column
     \<Rightarrow> MultiArchBundle list gomap \<times> calls" where
  "reportBundle e bundlesReport flt pkg st bundle =
     (case st of (m, cs) \<Rightarrow>
        if length flt > 0 \<and> \<not> Contains (PackageName bundle) flt then (m, cs)
        else (case auditBundle e bundlesReport bundle cs of
                (mb, cs1) \<Rightarrow> (AList.update pkg (mapGet m pkg @ [mb]) m, cs1)))"

definition reportPackages ::
  "env \<Rightarrow> Report \<Rightarrow> string \<Rightarrow> calls \<Rightarrow> MultiArchBundle list gomap \<times> calls" where
  "reportPackages e bundlesReport flt cs =
     foldl (\<lambda>st (pkg, bundles). foldl (reportBundle e bundlesReport flt pkg) st bundles)
       ([], cs) (mapHeadBundlesPerPackageWith (Columns bundlesReport))"

definition NewMultiArchReport ::
  "env \<Rightarrow> Report \<Rightarrow> string \<Rightarrow> calls \<Rightarrow> MultiArchReport \<times> calls" where
  "NewMultiArchReport e bundlesReport flt cs =
     (case reportPackages e bundlesReport flt cs of
        (mapPackagesWithMultData, cs1) \<Rightarrow>
          (\<lparr>ImageName = IndexImage (Flags bundlesReport),
            ImageID = ID (IndexImageInspect bundlesReport),
            ImageHash = [],
            ImageBuild = Created (IndexImageInspect bundlesReport),
            GeneratedAt = GenerateAt bundlesReport,
            Packages = map (\<lambda>(pkg, bundles). \<lparr>PkgName = pkg, Bundles = bundles\<rparr>)
                         mapPackagesWithMultData\<rparr>,
           cs1))"

section \<open>The words of the specification\<close>

text \<open>
  Case-insensitive containment, as the specification words the test of the annotation:
  both strings are lowered (ASCII letters only) before \<^const>\<open>Contains\<close> is asked.
\<close>

definition toLower :: "char \<Rightarrow> char" where
  "toLower c =
     (let n = (of_char c :: nat) in if 65 \<le> n \<and> n \<le> 90 then char_of (n + 32) else c)"

definition ContainsFold :: "string \<Rightarrow> string \<Rightarrow> bool" where
  "ContainsFold s substr = Contains (map toLower s) (map toLower substr)"

text \<open>
  ``The substring after the first \<open>"."\<close>'', as the specification words the token of a
  platform string, and the piece between the first \<open>"."\<close> and the next one.
\<close>

definition afterFirstDot :: "string \<Rightarrow> string" where
  "afterFirstDot s = tl (dropWhile (\<lambda>c. c \<noteq> CHR ''.'') s)"

definition secondField :: "string \<Rightarrow> string" where
  "secondField s = takeWhile (\<lambda>c. c \<noteq> CHR ''.'') (afterFirstDot s)"

text \<open>
  The token of a platform string as the program takes it: the piece between the first
  \<open>"."\<close> and the next one (or the end) when the string contains \<open>"."\<close>, the whole
  string otherwise. The token of a label is the label without the namespace prefix.
\<close>

definition platformToken :: "string \<Rightarrow> string" where
  "platformToken s = (if CHR ''.'' \<in> set s then secondField s else s)"

definition labelToken :: "string \<Rightarrow> string" where
  "labelToken l = ReplaceAll l ''operatorframework.io/arch.'' []"

text \<open>Storing each token of a list under itself, in order.\<close>

definition insertTokens :: "string gomap \<Rightarrow> string list \<Rightarrow> string gomap" where
  "insertTokens supp ts = foldl (\<lambda>supp t. AList.update t t supp) supp ts"

text \<open>The platform strings recorded under the keys of an image map.\<close>

definition platformStrings :: "string list gomap \<Rightarrow> string list" where
  "platformStrings images = concat (map snd images)"

text \<open>
  The findings of each check as the specification describes them: one per image
  reference without \<open>"@sha256"\<close>, one per pair of an image reference and a supported
  token that no platform string of the image contains, one for all the tokens without a
  label, one for the missing annotation.
\<close>

definition unpinned :: "'v gomap \<Rightarrow> string list" where
  "unpinned images = filter (\<lambda>img. \<not> Contains img ''@sha256'') (mapKeys images)"

definition missingPairs :: "string list gomap \<Rightarrow> string list \<Rightarrow> (string \<times> string) list" where
  "missingPairs images sups =
     concat (map (\<lambda>(img, arc).
                    map (Pair img) (filter (\<lambda>su. \<not> list_ex (\<lambda>t. Contains t su) arc) sups))
               images)"

definition digestFindings :: "MultiArchBundle \<Rightarrow> string list" where
  "digestFindings mb =
     (if HasMultArchSupport mb
      then map (shaMsg ''releated'' (Name (BundleCSV (BundleData mb)))) (unpinned (RelateImages mb))
         @ map (shaMsg ''install'' (Name (BundleCSV (BundleData mb)))) (unpinned (InstallImages mb))
      else [])"

definition coverageFindings :: "MultiArchBundle \<Rightarrow> string list" where
  "coverageFindings mb =
     (if HasMultArchSupport mb
      then map (\<lambda>(img, su). archMsg ''related'' (Name (BundleCSV (BundleData mb))) img su)
             (missingPairs (RelateImages mb) (mapKeys (Supported mb)))
         @ map (\<lambda>(img, su). archMsg ''install'' (Name (BundleCSV (BundleData mb))) img su)
             (missingPairs (InstallImages mb) (mapKeys (Supported mb)))
      else [])"

definition labelFindings :: "env \<Rightarrow> MultiArchBundle \<Rightarrow> string list" where
  "labelFindings e mb =
     (let unmatched = filter (\<lambda>su. \<not> list_ex (\<lambda>l. Contains l su) (InfraLabels mb))
                        (mapKeys (Supported mb))
      in if HasMultArchSupport mb \<and> unmatched \<noteq> []
         then [''[bundle '' @ Name (BundleCSV (BundleData mb)) @ '']: missing label for ''
                 @ quoteSlice e unmatched]
         else [])"

definition annotationFindings :: "env \<Rightarrow> MultiArchBundle \<Rightarrow> string list" where
  "annotationFindings e mb =
     (if HasMultArchSupport mb \<and> \<not> HasDisconnectAnnotation mb
      then [''found multiacrh support for the bundle (''
                @ Quote e (Name (BundleCSV (BundleData mb)))
                @ ''), however it is missing the CSV disconnected annotation'']
      else [])"

section \<open>Intermediate states of the audit of one bundle\<close>

text \<open>The fields that no step of the image gathering writes.\<close>

definition fixedPart ::
  "MultiArchBundle \<Rightarrow>
     bool \<times> string list \<times> string gomap \<times> bool \<times> ClusterServiceVersion \<times> string \<times> bool" where
  "fixedPart mb =
     (HasDisconnectAnnotation mb, InfraLabels mb, Supported mb, HasMultArchSupport mb,
      BundleCSV (BundleData mb), PackageName (BundleData mb), IsHeadOfChannel (BundleData mb))"

text \<open>The bundle after lines 76 to 78, and after lines 76 to 80.\<close>

definition labelled :: "env \<Rightarrow> Column \<Rightarrow> MultiArchBundle" where
  "labelled e bundle = addDisconnectAnnotationValue e (addInfraLabels (newMultiArchBundle bundle))"

definition gathered :: "env \<Rightarrow> Report \<Rightarrow> Column \<Rightarrow> calls \<Rightarrow> MultiArchBundle \<times> calls" where
  "gathered e r b cs =
     addDataFromRelateImages e r (addDataFromInstallImages e r (labelled e b, cs))"

text \<open>The image references of a bundle, install images first.\<close>

definition imagesOf :: "Column \<Rightarrow> string list" where
  "imagesOf b = concat (DeploymentSpecs (BundleCSV b)) @ RelatedImages (BundleCSV b)"

text \<open>
  The calls that inspect a list of images in order, the \<open>i\<close>-th image \<open>ks ! i\<close>
  times, each time with the same engine.
\<close>

definition callsFor :: "string \<Rightarrow> string list \<Rightarrow> nat list \<Rightarrow> calls" where
  "callsFor engine imgs ks = concat (map (\<lambda>(img, k). replicate k (img, engine)) (zip imgs ks))"

text \<open>
  Every call for an image reference made between two states of the call log failed:
  the calls are those at the positions from the length of the earlier log up to the
  length of the later one.
\<close>

definition allCallsFail :: "env \<Rightarrow> calls \<Rightarrow> calls \<Rightarrow> string \<Rightarrow> bool" where
  "allCallsFail e before after ref =
     list_all (\<lambda>n. fst (after ! n) = ref \<longrightarrow> isl (Inspect e n ref (snd (after ! n))))
       [length before ..< length after]"

text \<open>
  A step that inspects one image: it calls once, and once more after a failure, always with
  the image and the engine it was given.
\<close>

definition inspects ::
  "env \<Rightarrow> string \<Rightarrow> (MultiArchBundle \<times> calls \<Rightarrow> string \<Rightarrow> MultiArchBundle \<times> calls) \<Rightarrow> bool" where
  "inspects e engine f =
     (\<forall>st img. snd (f st img) =
        snd st @ replicate (if isl (Inspect e (length (snd st)) img engine) then 2 else 1)
                   (img, engine))"

text \<open>The test of lines 71 to 75 that keeps a bundle.\<close>

definition passesFilter :: "string \<Rightarrow> string \<Rightarrow> bool" where
  "passesFilter flt name = (flt = [] \<or> Contains name flt)"

text \<open>The bundle records that the report keeps: heads of a channel that pass the filter.\<close>

definition retained :: "string \<Rightarrow> Column \<Rightarrow> bool" where
  "retained flt c = (IsHeadOfChannel c \<and> passesFilter flt (PackageName c))"

text \<open>All the bundles of a grouping, package by package.\<close>

definition allBundles :: "'a list gomap \<Rightarrow> 'a list" where
  "allBundles m = concat (map snd m)"

section \<open>Concrete inputs\<close>

text \<open>
  An inspector that never answers for \<open>registry/broken\<close>, reports \<open>linux\<close> with
  architecture \<open>arm.v7\<close> for \<open>registry/arm\<close>, answers for \<open>registry/flaky\<close> from
  the second call on, and reports \<open>linux.amd64\<close> for every other image.
\<close>

definition exInspect :: inspector where
  "exInspect n img engine =
     (if img = ''registry/broken'' then Inl ''manifest unknown''
      else if img = ''registry/flaky'' \<and> n = 0 then Inl ''timeout''
      else if img = ''registry/arm'' then Inr [(''linux'', ''arm.v7'')]
      else Inr [(''linux'', ''amd64'')])"

definition exEnv :: env where
  "exEnv = \<lparr>Inspect = exInspect,
            InfrastructureAnnotation = ''operators.openshift.io/infrastructure-features'',
            Quote = (\<lambda>s. [CHR 0x22] @ s @ [CHR 0x22])\<rparr>"

definition exCSV :: ClusterServiceVersion where
  "exCSV = \<lparr>Name = ''op.v1'',
            Labels = [(''operatorframework.io/arch.amd64'', ''supported''),
                      (''operatorframework.io/arch.s390x'', ''supported'')],
            Annotations = [(''operators.openshift.io/infrastructure-features'', ''DISCONNECTED'')],
            DeploymentSpecs = [[''registry/x:latest'', ''registry/broken'']],
            RelatedImages = [''registry/x:latest'']\<rparr>"

text \<open>
  A head bundle with two architecture labels; \<open>registry/x:latest\<close> is both an install
  image and a related image, and the install image \<open>registry/broken\<close> cannot be
  inspected.
\<close>

definition exBundle :: Column where
  "exBundle = \<lparr>PackageName = ''op'', IsHeadOfChannel = True, AuditErrors = [],
               BundleCSV = exCSV\<rparr>"

text \<open>A bundle without labels whose only image, a related one, cannot be inspected.\<close>

definition exBroken :: Column where
  "exBroken = \<lparr>PackageName = ''other'', IsHeadOfChannel = True, AuditErrors = [],
               BundleCSV = \<lparr>Name = ''other.v1'', Labels = [], Annotations = [],
                             DeploymentSpecs = [], RelatedImages = [''registry/broken'']\<rparr>\<rparr>"

text \<open>
  A bundle, not head of its channel, with the annotation value \<open>Disconnected\<close>, whose
  related image reports the platform string \<open>linux.arm.v7\<close>.
\<close>

definition exArm :: Column where
  "exArm = \<lparr>PackageName = ''arm'', IsHeadOfChannel = False, AuditErrors = [],
            BundleCSV = \<lparr>Name = ''arm.v1'', Labels = [],
                          Annotations = [(''operators.openshift.io/infrastructure-features'',
                                          ''Disconnected'')],
                          DeploymentSpecs = [], RelatedImages = [''registry/arm'']\<rparr>\<rparr>"

text \<open>
  A head bundle with three architecture labels whose only image, a pinned related one,
  reports \<open>linux.amd64\<close>.
\<close>

definition exThree :: Column where
  "exThree = \<lparr>PackageName = ''three'', IsHeadOfChannel = True, AuditErrors = [],
              BundleCSV = \<lparr>Name = ''three.v1'',
                            Labels = [(''operatorframework.io/arch.amd64'', ''supported''),
                                      (''operatorframework.io/arch.s390x'', ''supported''),
                                      (''operatorframework.io/arch.ppc64le'', ''supported'')],
                            Annotations = [],
                            DeploymentSpecs = [],
                            RelatedImages = [''registry/x@sha256:abc'']\<rparr>\<rparr>"

definition exReport :: Report where
  "exReport = \<lparr>Flags = \<lparr>IndexImage = ''registry/index:v1'', ContainerEngine = ''docker''\<rparr>,
               IndexImageInspect = \<lparr>ID = ''sha256:0'', Created = ''2021''\<rparr>,
               GenerateAt = ''2021-01-01'',
               Columns = [exBundle, exBroken, exArm]\<rparr>"

section \<open>Strings, maps and loops\<close>

lemma foldl_inv:
  assumes "P s" and "\<And>s x. x \<in> set xs \<Longrightarrow> P s \<Longrightarrow> P (f s x)"
  shows "P (foldl f s xs)"
  using assms by (induction xs arbitrary: s) auto

lemma HasPrefix_iff: "HasPrefix s p = (\<exists>q. s = p @ q)"
proof
  assume "HasPrefix s p"
  then have "s = p @ drop (length p) s"
    by (metis HasPrefix_def append_take_drop_id)
  then show "\<exists>q. s = p @ q" ..
next
  assume "\<exists>q. s = p @ q"
  then show "HasPrefix s p" by (auto simp: HasPrefix_def)
qed

lemma Contains_iff: "Contains s substr = (\<exists>p q. s = p @ substr @ q)"
proof (induction s)
  case Nil
  then show ?case by simp
next
  case (Cons c s)
  show ?case
  proof
    assume "Contains (c # s) substr"
    then consider "HasPrefix (c # s) substr" | "Contains s substr" by auto
    then show "\<exists>p q. c # s = p @ substr @ q"
    proof cases
      case 1
      then obtain q where "c # s = substr @ q" by (auto simp: HasPrefix_iff)
      then have "c # s = [] @ substr @ q" by simp
      then show ?thesis by blast
    next
      case 2
      then obtain p q where "s = p @ substr @ q" using Cons.IH by auto
      then have "c # s = (c # p) @ substr @ q" by simp
      then show ?thesis by blast
    qed
  next
    assume "\<exists>p q. c # s = p @ substr @ q"
    then obtain p q where pq: "c # s = p @ substr @ q" by auto
    show "Contains (c # s) substr"
    proof (cases p)
      case Nil
      then have "HasPrefix (c # s) substr" using pq by (auto simp: HasPrefix_iff)
      then show ?thesis by simp
    next
      case (Cons a p')
      then have "s = p' @ substr @ q" using pq by simp
      then have "Contains s substr" using Cons.IH by blast
      then show ?thesis by simp
    qed
  qed
qed

lemma Contains_single: "Contains s [d] = (d \<in> set s)"
  by (induction s) (auto simp: HasPrefix_def)

lemma Contains_map: "Contains s substr \<Longrightarrow> Contains (map f s) (map f substr)"
proof -
  assume "Contains s substr"
  then obtain p q where "s = p @ substr @ q" by (auto simp: Contains_iff)
  then have "map f s = map f p @ map f substr @ map f q" by simp
  then show ?thesis unfolding Contains_iff by blast
qed

lemma Split_single:
  "Split s [d] = (if d \<in> set s
                  then takeWhile (\<lambda>c. c \<noteq> d) s # Split (tl (dropWhile (\<lambda>c. c \<noteq> d) s)) [d]
                  else [s])"
proof (induction s)
  case Nil
  then show ?case by simp
next
  case (Cons c s)
  show ?case
  proof (cases "c = d")
    case True
    then show ?thesis by (simp add: HasPrefix_def)
  next
    case False
    then show ?thesis using Cons.IH by (simp add: HasPrefix_def)
  qed
qed

lemma Split_nonempty: "Split s sep \<noteq> []"
  by (induction s sep rule: Split.induct) (auto split: list.splits)

lemma Split_single_second:
  assumes "d \<in> set s"
  shows "Split s [d] ! 1 = takeWhile (\<lambda>c. c \<noteq> d) (tl (dropWhile (\<lambda>c. c \<noteq> d) s))"
    and "2 \<le> length (Split s [d])"
proof -
  let ?r = "tl (dropWhile (\<lambda>c. c \<noteq> d) s)"
  have s: "Split s [d] = takeWhile (\<lambda>c. c \<noteq> d) s # Split ?r [d]"
    using assms Split_single [of s d] by simp
  have hd: "hd (Split ?r [d]) = takeWhile (\<lambda>c. c \<noteq> d) ?r"
  proof (cases "d \<in> set ?r")
    case True
    have "Split ?r [d] = takeWhile (\<lambda>c. c \<noteq> d) ?r # Split (tl (dropWhile (\<lambda>c. c \<noteq> d) ?r)) [d]"
      by (subst Split_single) (simp only: True if_True)
    then show ?thesis by (simp only: list.sel)
  next
    case False
    have 1: "Split ?r [d] = [?r]"
      by (subst Split_single) (simp only: False if_False)
    have 2: "takeWhile (\<lambda>c. c \<noteq> d) ?r = ?r"
      using False by (auto simp: takeWhile_eq_all_conv)
    show ?thesis unfolding 1 2 by (simp only: list.sel)
  qed
  have ne: "Split ?r [d] \<noteq> []" by (rule Split_nonempty)
  show "Split s [d] ! 1 = takeWhile (\<lambda>c. c \<noteq> d) ?r"
    using s hd ne by (simp add: hd_conv_nth)
  show "2 \<le> length (Split s [d])"
    using s ne by (cases "Split ?r [d]") auto
qed

lemma mapKeys_update [simp]: "set (mapKeys (AList.update k v m)) = insert k (set (mapKeys m))"
  by (simp add: mapKeys_def dom_update)

lemma distinct_mapKeys_update: "distinct (mapKeys m) \<Longrightarrow> distinct (mapKeys (AList.update k v m))"
  by (simp add: mapKeys_def distinct_update)

lemma mapGet_absent: "k \<notin> set (mapKeys m) \<Longrightarrow> mapGet m k = []"
  by (simp add: mapGet_def mapKeys_def map_of_eq_None_iff [THEN iffD2])

lemma appendPlatforms_keys:
  "set (mapKeys (appendPlatforms img manifest m)) =
     (if manifest = [] then set (mapKeys m) else insert img (set (mapKeys m)))"
  unfolding appendPlatforms_def
  by (induction manifest arbitrary: m) (auto split: prod.splits)

lemma appendPlatforms_distinct:
  "distinct (mapKeys m) \<Longrightarrow> distinct (mapKeys (appendPlatforms img manifest m))"
  unfolding appendPlatforms_def
  by (induction manifest arbitrary: m) (auto split: prod.splits simp: distinct_mapKeys_update)

lemma installImage_cases:
  "(\<exists>err. fst (installImage e engine (mb, cs) img) = appendAuditError err mb) \<or>
   (\<exists>manifest. fst (installImage e engine (mb, cs) img) =
      mb\<lparr>InstallImages := appendPlatforms img manifest (InstallImages mb)\<rparr>)"
  by (auto simp: installImage_def RunDockerManifestInspect_def split: sum.splits)

lemma relateImage_cases:
  "(\<exists>err. fst (relateImage e engine (mb, cs) img) =
      (appendAuditError err mb)\<lparr>Validations := Validations mb @ [inspectFailedMsg img err]\<rparr>) \<or>
   (\<exists>manifest. fst (relateImage e engine (mb, cs) img) =
      mb\<lparr>RelateImages := appendPlatforms img manifest (RelateImages mb)\<rparr>)"
  by (auto simp: relateImage_def RunDockerManifestInspect_def appendAuditError_def Let_def
           split: sum.splits)

subsection \<open>Extraction: what each step leaves alone\<close>

lemma appendAuditError_simps [simp]:
  "HasDisconnectAnnotation (appendAuditError err mb) = HasDisconnectAnnotation mb"
  "InfraLabels (appendAuditError err mb) = InfraLabels mb"
  "RelateImages (appendAuditError err mb) = RelateImages mb"
  "InstallImages (appendAuditError err mb) = InstallImages mb"
  "Validations (appendAuditError err mb) = Validations mb"
  "Supported (appendAuditError err mb) = Supported mb"
  "HasMultArchSupport (appendAuditError err mb) = HasMultArchSupport mb"
  "BundleCSV (BundleData (appendAuditError err mb)) = BundleCSV (BundleData mb)"
  "PackageName (BundleData (appendAuditError err mb)) = PackageName (BundleData mb)"
  "IsHeadOfChannel (BundleData (appendAuditError err mb)) = IsHeadOfChannel (BundleData mb)"
  "AuditErrors (BundleData (appendAuditError err mb)) = AuditErrors (BundleData mb) @ [err]"
  by (simp_all add: appendAuditError_def)

lemma installImage_frame:
  "fixedPart (fst (installImage e engine st img)) = fixedPart (fst st) \<and>
   RelateImages (fst (installImage e engine st img)) = RelateImages (fst st) \<and>
   Validations (fst (installImage e engine st img)) = Validations (fst st)"
  using installImage_cases [of e engine "fst st" "snd st" img]
  by (auto simp: fixedPart_def)

lemma relateImage_frame:
  "fixedPart (fst (relateImage e engine st img)) = fixedPart (fst st) \<and>
   InstallImages (fst (relateImage e engine st img)) = InstallImages (fst st)"
  using relateImage_cases [of e engine "fst st" "snd st" img]
  by (auto simp: fixedPart_def)

lemma addDataFromInstallImages_frame:
  "fixedPart (fst (addDataFromInstallImages e r st)) = fixedPart (fst st) \<and>
   RelateImages (fst (addDataFromInstallImages e r st)) = RelateImages (fst st) \<and>
   Validations (fst (addDataFromInstallImages e r st)) = Validations (fst st)"
proof -
  obtain mb cs where st: "st = (mb, cs)" by (cases st)
  let ?P = "\<lambda>s :: MultiArchBundle \<times> calls. fixedPart (fst s) = fixedPart mb \<and> RelateImages (fst s) = RelateImages mb \<and>
                 Validations (fst s) = Validations mb"
  have "?P (foldl (\<lambda>st containers.
                 foldl (installImage e (ContainerEngine (Flags r))) st containers)
          (mb\<lparr>InstallImages := []\<rparr>, cs)
          (DeploymentSpecs (BundleCSV (BundleData mb))))"
  proof (rule foldl_inv)
    show "?P (mb\<lparr>InstallImages := []\<rparr>, cs)" by (simp add: fixedPart_def)
  next
    fix s containers
    assume "?P s"
    then show "?P (foldl (installImage e (ContainerEngine (Flags r))) s containers)"
      by (rule foldl_inv) (simp add: installImage_frame)
  qed
  then show ?thesis by (simp add: st addDataFromInstallImages_def)
qed

lemma addDataFromRelateImages_frame:
  "fixedPart (fst (addDataFromRelateImages e r st)) = fixedPart (fst st) \<and>
   InstallImages (fst (addDataFromRelateImages e r st)) = InstallImages (fst st)"
proof -
  obtain mb cs where st: "st = (mb, cs)" by (cases st)
  let ?P = "\<lambda>s :: MultiArchBundle \<times> calls. fixedPart (fst s) = fixedPart mb \<and> InstallImages (fst s) = InstallImages mb"
  have "?P (foldl (relateImage e (ContainerEngine (Flags r)))
          (mb\<lparr>RelateImages := []\<rparr>, cs)
          (RelatedImages (BundleCSV (BundleData mb))))"
    by (rule foldl_inv) (simp_all add: fixedPart_def relateImage_frame [unfolded fixedPart_def])
  then show ?thesis by (simp add: st addDataFromRelateImages_def)
qed

subsection \<open>Validation\<close>

lemma checkSHAImages_eq:
  "checkSHAImages role name vs images =
     vs @ map (shaMsg role name) (filter (\<lambda>img. \<not> Contains img ''@sha256'') images)"
  unfolding checkSHAImages_def by (induction images arbitrary: vs) auto

lemma checkSHA_eq: "checkSHA mb = mb\<lparr>Validations := Validations mb @ digestFindings mb\<rparr>"
  by (simp add: checkSHA_def digestFindings_def checkSHAImages_eq unpinned_def Let_def)

lemma missing_inner_eq:
  "foldl (\<lambda>vs su. if \<not> foundIn arc su then vs @ [archMsg role name img su] else vs) vs sups =
     vs @ map (archMsg role name img) (filter (\<lambda>su. \<not> list_ex (\<lambda>t. Contains t su) arc) sups)"
  by (induction sups arbitrary: vs) (auto simp: foundIn_def)

lemma checkMissingImages_eq:
  "checkMissingImages role name sups vs images =
     vs @ map (\<lambda>(img, su). archMsg role name img su) (missingPairs images sups)"
  unfolding checkMissingImages_def missingPairs_def
  by (induction images arbitrary: vs) (auto simp: missing_inner_eq comp_def)

lemma checkMissingArchtype_eq:
  "checkMissingArchtype mb = mb\<lparr>Validations := Validations mb @ coverageFindings mb\<rparr>"
  by (simp add: checkMissingArchtype_def coverageFindings_def checkMissingImages_eq Let_def)

lemma notFound_eq:
  "foldl (\<lambda>nf supported. if \<not> foundIn labels supported then nf @ [supported] else nf) nf sups =
     nf @ filter (\<lambda>su. \<not> list_ex (\<lambda>l. Contains l su) labels) sups"
  by (induction sups arbitrary: nf) (auto simp: foundIn_def)

lemma checkLabels_eq:
  "checkLabels e mb = mb\<lparr>Validations := Validations mb @ labelFindings e mb\<rparr>"
  by (simp add: checkLabels_def labelFindings_def notFound_eq Let_def)

lemma checkAnnotation_eq:
  "checkAnnotation e mb = mb\<lparr>Validations := Validations mb @ annotationFindings e mb\<rparr>"
  by (simp add: checkAnnotation_def annotationFindings_def)

lemma validate_eq:
  "validate e mb =
     mb\<lparr>Validations := Validations mb @ digestFindings mb @ labelFindings e mb
                           @ annotationFindings e mb @ coverageFindings mb\<rparr>"
  by (simp add: validate_def checkSHA_eq checkLabels_eq checkAnnotation_eq
        checkMissingArchtype_eq digestFindings_def labelFindings_def annotationFindings_def
        coverageFindings_def Let_def)

lemma missingPairs_set:
  "set (missingPairs images sups) =
     {(img, su). \<exists>arc. (img, arc) \<in> set images \<and> su \<in> set sups
                        \<and> \<not> list_ex (\<lambda>t. Contains t su) arc}"
  by (auto simp: missingPairs_def)

lemma missingPairs_fst: "fst ` set (missingPairs images sups) \<subseteq> set (mapKeys images)"
  by (force simp: missingPairs_set mapKeys_def)

lemma missingPairs_distinct:
  "distinct (mapKeys images) \<Longrightarrow> distinct sups \<Longrightarrow> distinct (missingPairs images sups)"
proof (induction images)
  case Nil
  then show ?case by (simp add: missingPairs_def)
next
  case (Cons p images)
  obtain img arc where p: "p = (img, arc)" by (cases p)
  have split: "missingPairs (p # images) sups =
      map (Pair img) (filter (\<lambda>su. \<not> list_ex (\<lambda>t. Contains t su) arc) sups)
        @ missingPairs images sups"
    by (simp add: missingPairs_def p)
  have d1: "distinct (map (Pair img) (filter (\<lambda>su. \<not> list_ex (\<lambda>t. Contains t su) arc) sups))"
    using Cons.prems(2) by (simp add: distinct_map inj_on_def)
  have d2: "distinct (missingPairs images sups)"
    using Cons by (simp add: mapKeys_def)
  have "img \<notin> set (mapKeys images)" using Cons.prems(1) by (simp add: mapKeys_def p)
  then have "img \<notin> fst ` set (missingPairs images sups)"
    using missingPairs_fst [of images sups] by blast
  then have disj: "set (map (Pair img) (filter (\<lambda>su. \<not> list_ex (\<lambda>t. Contains t su) arc) sups))
               \<inter> set (missingPairs images sups) = {}"
    by force
  show ?case unfolding split using d1 d2 disj by simp
qed

lemma mapGet_present:
  "distinct (mapKeys images) \<Longrightarrow> (img, arc) \<in> set images \<Longrightarrow> mapGet images img = arc"
  by (simp add: mapGet_def mapKeys_def)

lemma missingPairs_mem:
  assumes "distinct (mapKeys images)"
  shows "(img, su) \<in> set (missingPairs images sups) \<longleftrightarrow>
           img \<in> set (mapKeys images) \<and> su \<in> set sups
           \<and> \<not> list_ex (\<lambda>t. Contains t su) (mapGet images img)"
proof
  assume "(img, su) \<in> set (missingPairs images sups)"
  then obtain arc where a: "(img, arc) \<in> set images" "su \<in> set sups"
      "\<not> list_ex (\<lambda>t. Contains t su) arc"
    by (auto simp: missingPairs_set)
  then have "mapGet images img = arc" using assms mapGet_present by blast
  moreover have "img \<in> set (mapKeys images)" using a(1) by (force simp: mapKeys_def)
  ultimately show "img \<in> set (mapKeys images) \<and> su \<in> set sups
           \<and> \<not> list_ex (\<lambda>t. Contains t su) (mapGet images img)"
    using a by simp
next
  assume r: "img \<in> set (mapKeys images) \<and> su \<in> set sups
           \<and> \<not> list_ex (\<lambda>t. Contains t su) (mapGet images img)"
  then obtain arc where a: "(img, arc) \<in> set images" by (auto simp: mapKeys_def)
  then have "mapGet images img = arc" using assms mapGet_present by blast
  then show "(img, su) \<in> set (missingPairs images sups)"
    using r a by (auto simp: missingPairs_set)
qed

subsection \<open>The extraction as a whole\<close>

lemma addInfraLabels_fold:
  "foldl (\<lambda>mb (k, v). if Contains k ''arch'' \<and> v = ''supported''
                        then mb\<lparr>InfraLabels := InfraLabels mb @ [k]\<rparr> else mb) mb ls =
     mb\<lparr>InfraLabels := InfraLabels mb
          @ map fst (filter (\<lambda>(k, v). Contains k ''arch'' \<and> v = ''supported'') ls)\<rparr>"
  by (induction ls arbitrary: mb) (auto split: prod.splits)

lemma addInfraLabels_eq:
  "addInfraLabels mb =
     mb\<lparr>InfraLabels := InfraLabels mb
          @ map fst (filter (\<lambda>(k, v). Contains k ''arch'' \<and> v = ''supported'')
                       (Labels (BundleCSV (BundleData mb))))\<rparr>"
  unfolding addInfraLabels_def by (rule addInfraLabels_fold)

lemma labelled_simps:
  "HasDisconnectAnnotation (labelled e b) =
     (Contains (annotationValue (Annotations (BundleCSV b)) (InfrastructureAnnotation e)) ''Disconnected''
      \<or> Contains (annotationValue (Annotations (BundleCSV b)) (InfrastructureAnnotation e)) ''disconnected'')"
  "InfraLabels (labelled e b) =
     map fst (filter (\<lambda>(k, v). Contains k ''arch'' \<and> v = ''supported'') (Labels (BundleCSV b)))"
  "Supported (labelled e b) = []"
  "HasMultArchSupport (labelled e b) = False"
  "BundleData (labelled e b) = b"
  "Validations (labelled e b) = []"
  by (simp_all add: labelled_def addDisconnectAnnotationValue_def addInfraLabels_eq
        newMultiArchBundle_def Let_def)

lemma fixedPart_labelled:
  "fixedPart (labelled e b) =
     (HasDisconnectAnnotation (labelled e b), InfraLabels (labelled e b), [], False,
      BundleCSV b, PackageName b, IsHeadOfChannel b)"
  by (simp add: fixedPart_def labelled_simps(3-5))

lemma extractBundle_gathered:
  "extractBundle e r b cs = (checkSupport (fst (gathered e r b cs)), snd (gathered e r b cs))"
  by (simp add: extractBundle_def gathered_def labelled_def Let_def)

lemma fixedPart_gathered: "fixedPart (fst (gathered e r b cs)) = fixedPart (labelled e b)"
  by (simp add: gathered_def addDataFromRelateImages_frame addDataFromInstallImages_frame)

lemma gathered_simps:
  "HasDisconnectAnnotation (fst (gathered e r b cs)) = HasDisconnectAnnotation (labelled e b)"
  "InfraLabels (fst (gathered e r b cs)) = InfraLabels (labelled e b)"
  "Supported (fst (gathered e r b cs)) = []"
  "HasMultArchSupport (fst (gathered e r b cs)) = False"
  "BundleCSV (BundleData (fst (gathered e r b cs))) = BundleCSV b"
  "PackageName (BundleData (fst (gathered e r b cs))) = PackageName b"
  "IsHeadOfChannel (BundleData (fst (gathered e r b cs))) = IsHeadOfChannel b"
  using fixedPart_gathered [of e r b cs] fixedPart_labelled [of e b]
  by (simp_all add: fixedPart_def)

lemma supportPlatform_distinct:
  "distinct (mapKeys supp) \<Longrightarrow> distinct (mapKeys (supportPlatform supp p))"
  by (simp add: supportPlatform_def distinct_mapKeys_update)

lemma supportImages_distinct:
  "distinct (mapKeys supp) \<Longrightarrow> distinct (mapKeys (supportImages supp images))"
  unfolding supportImages_def
proof (rule foldl_inv [where P = "\<lambda>s. distinct (mapKeys s)"])
  fix s :: "string gomap" and x :: "string \<times> string list"
  assume "distinct (mapKeys s)"
  then have "distinct (mapKeys (foldl supportPlatform s (snd x)))"
    by (rule foldl_inv) (rule supportPlatform_distinct)
  then show "distinct (mapKeys (case x of (img, v) \<Rightarrow> foldl supportPlatform s v))"
    by (simp add: case_prod_unfold)
qed

lemma supportLabels_distinct:
  "distinct (mapKeys supp) \<Longrightarrow> distinct (mapKeys (foldl supportLabel supp labels))"
  by (rule foldl_inv) (simp_all add: supportLabel_def Let_def distinct_mapKeys_update)

lemma checkSupport_distinct:
  "distinct (mapKeys (Supported mb)) \<Longrightarrow> distinct (mapKeys (Supported (checkSupport mb)))"
  by (simp add: checkSupport_def supportImages_distinct supportLabels_distinct)

lemma extractBundle_simps:
  "HasDisconnectAnnotation (fst (extractBundle e r b cs)) = HasDisconnectAnnotation (labelled e b)"
  "InfraLabels (fst (extractBundle e r b cs)) = InfraLabels (labelled e b)"
  "HasMultArchSupport (fst (extractBundle e r b cs)) = False"
  "BundleCSV (BundleData (fst (extractBundle e r b cs))) = BundleCSV b"
  "PackageName (BundleData (fst (extractBundle e r b cs))) = PackageName b"
  "IsHeadOfChannel (BundleData (fst (extractBundle e r b cs))) = IsHeadOfChannel b"
  "RelateImages (fst (extractBundle e r b cs)) = RelateImages (fst (gathered e r b cs))"
  "InstallImages (fst (extractBundle e r b cs)) = InstallImages (fst (gathered e r b cs))"
  "Validations (fst (extractBundle e r b cs)) = Validations (fst (gathered e r b cs))"
  "snd (extractBundle e r b cs) = snd (gathered e r b cs)"
  by (simp_all add: extractBundle_gathered checkSupport_def gathered_simps)

lemma extractBundle_Supported_distinct:
  "distinct (mapKeys (Supported (fst (extractBundle e r b cs))))"
proof -
  have "distinct (mapKeys (Supported (fst (gathered e r b cs))))"
    by (simp add: gathered_simps mapKeys_def)
  then show ?thesis
    by (simp add: extractBundle_gathered checkSupport_distinct)
qed

lemma auditBundle_eq:
  "auditBundle e r b cs =
     (validate e (setMultArchSupport (fst (extractBundle e r b cs))), snd (extractBundle e r b cs))"
  by (simp add: auditBundle_def Let_def)

lemma setMultArchSupport_simps:
  "HasMultArchSupport (setMultArchSupport mb) = (HasMultArchSupport mb \<or> 1 < length (Supported mb))"
  "HasDisconnectAnnotation (setMultArchSupport mb) = HasDisconnectAnnotation mb"
  "InfraLabels (setMultArchSupport mb) = InfraLabels mb"
  "RelateImages (setMultArchSupport mb) = RelateImages mb"
  "InstallImages (setMultArchSupport mb) = InstallImages mb"
  "BundleData (setMultArchSupport mb) = BundleData mb"
  "Validations (setMultArchSupport mb) = Validations mb"
  "Supported (setMultArchSupport mb) = Supported mb"
  by (simp_all add: setMultArchSupport_def)

lemma validate_simps:
  "HasMultArchSupport (validate e mb) = HasMultArchSupport mb"
  "HasDisconnectAnnotation (validate e mb) = HasDisconnectAnnotation mb"
  "InfraLabels (validate e mb) = InfraLabels mb"
  "RelateImages (validate e mb) = RelateImages mb"
  "InstallImages (validate e mb) = InstallImages mb"
  "BundleData (validate e mb) = BundleData mb"
  "Supported (validate e mb) = Supported mb"
  by (simp_all add: validate_eq)

lemma card_keys: "distinct (mapKeys m) \<Longrightarrow> card (set (mapKeys m)) = length m"
  unfolding mapKeys_def using distinct_card [of "map fst m"] by simp

section \<open>Claims\<close>

text \<open>
  C4. After the audit of any bundle, \<open>HasMultArchSupport\<close> is true exactly when
  \<open>Supported\<close> holds more than one token. When it holds at most one, the audit adds
  no finding to those of the extraction; and on any bundle state whose flag is false,
  whatever its other fields, each of the four checks and \<open>validate\<close> return the
  bundle unchanged.
\<close>

theorem multiarch_flag_gates_validation:
  "HasMultArchSupport (fst (auditBundle e r b cs))
     = (1 < card (set (mapKeys (Supported (fst (auditBundle e r b cs))))))
   \<and> (card (set (mapKeys (Supported (fst (auditBundle e r b cs))))) \<le> 1 \<longrightarrow>
        Validations (fst (auditBundle e r b cs)) = Validations (fst (extractBundle e r b cs)))
   \<and> (\<not> HasMultArchSupport mb \<longrightarrow>
        checkSHA mb = mb \<and> checkLabels e mb = mb \<and> checkAnnotation e mb = mb
        \<and> checkMissingArchtype mb = mb \<and> validate e mb = mb)"
proof -
  let ?x = "fst (extractBundle e r b cs)"
  have card: "card (set (mapKeys (Supported ?x))) = length (Supported ?x)"
    by (rule card_keys) (rule extractBundle_Supported_distinct)
  have sup: "Supported (fst (auditBundle e r b cs)) = Supported ?x"
    by (simp add: auditBundle_eq validate_simps setMultArchSupport_simps)
  have flag: "HasMultArchSupport (fst (auditBundle e r b cs)) = (1 < length (Supported ?x))"
    by (simp add: auditBundle_eq validate_simps setMultArchSupport_simps extractBundle_simps)
  have off: "validate e mb' = mb'" if "\<not> HasMultArchSupport mb'" for mb'
    using that
    by (simp add: validate_eq digestFindings_def labelFindings_def annotationFindings_def
          coverageFindings_def)
  have quiet: "Validations (fst (auditBundle e r b cs)) = Validations ?x"
    if "length (Supported ?x) \<le> 1"
  proof -
    have "\<not> HasMultArchSupport (setMultArchSupport ?x)"
      using that by (simp add: setMultArchSupport_simps extractBundle_simps)
    then show ?thesis
      by (simp add: auditBundle_eq off setMultArchSupport_simps)
  qed
  have checks: "checkSHA mb = mb \<and> checkLabels e mb = mb \<and> checkAnnotation e mb = mb
        \<and> checkMissingArchtype mb = mb \<and> validate e mb = mb" if "\<not> HasMultArchSupport mb"
    using that
    by (simp add: checkSHA_def checkLabels_def checkAnnotation_def checkMissingArchtype_def off)
  show ?thesis using flag quiet checks by (simp add: sup card)
qed

theorem multiarch_flag_gates_validation_witness:
  "card (set (mapKeys (Supported (fst (auditBundle exEnv exReport exBroken []))))) \<le> 1
   \<and> \<not> HasMultArchSupport (fst (auditBundle exEnv exReport exBroken []))
   \<and> Validations (fst (auditBundle exEnv exReport exBroken []))
       = Validations (fst (extractBundle exEnv exReport exBroken []))
   \<and> \<not> HasMultArchSupport (fst (extractBundle exEnv exReport exBundle []))
   \<and> validate exEnv (fst (extractBundle exEnv exReport exBundle []))
       = fst (extractBundle exEnv exReport exBundle [])"
proof -
  have h1: "card (set (mapKeys (Supported (fst (auditBundle exEnv exReport exBroken []))))) \<le> 1"
    by code_simp
  have h2: "\<not> HasMultArchSupport (fst (extractBundle exEnv exReport exBundle []))"
    by code_simp
  show ?thesis
    using h1 h2
      multiarch_flag_gates_validation [of exEnv exReport exBroken "[]"
        "fst (extractBundle exEnv exReport exBundle [])"]
    by auto
qed

lemma auditBundle_flag:
  "HasDisconnectAnnotation (fst (auditBundle e r b cs)) = HasDisconnectAnnotation (labelled e b)"
  by (simp add: auditBundle_eq validate_simps setMultArchSupport_simps extractBundle_simps)

lemma lower_disconnected:
  "map toLower ''Disconnected'' = ''disconnected''"
  "map toLower ''disconnected'' = ''disconnected''"
  by code_simp+

lemma Contains_fold_disconnected:
  "Contains v ''Disconnected'' \<or> Contains v ''disconnected'' \<Longrightarrow> ContainsFold v ''disconnected''"
  unfolding ContainsFold_def
  using Contains_map [of v "''Disconnected''" toLower] Contains_map [of v "''disconnected''" toLower]
  by (auto simp only: lower_disconnected)

text \<open>
  C2 (amended). The disconnect flag of an audited bundle is true exactly when the value of
  the infrastructure annotation contains \<open>"Disconnected"\<close> or \<open>"disconnected"\<close>,
  matched case-sensitively; a bundle without the annotation has the flag false; and a
  true flag implies that the value contains \<open>"disconnected"\<close> case-insensitively.
\<close>

theorem disconnect_flag_two_spellings:
  "HasDisconnectAnnotation (fst (auditBundle e r b cs))
     = (Contains (annotationValue (Annotations (BundleCSV b)) (InfrastructureAnnotation e))
          ''Disconnected''
        \<or> Contains (annotationValue (Annotations (BundleCSV b)) (InfrastructureAnnotation e))
          ''disconnected'')
   \<and> (map_of (Annotations (BundleCSV b)) (InfrastructureAnnotation e) = None \<longrightarrow>
        \<not> HasDisconnectAnnotation (fst (auditBundle e r b cs)))
   \<and> (HasDisconnectAnnotation (fst (auditBundle e r b cs)) \<longrightarrow>
        ContainsFold (annotationValue (Annotations (BundleCSV b)) (InfrastructureAnnotation e))
          ''disconnected'')"
proof -
  let ?v = "annotationValue (Annotations (BundleCSV b)) (InfrastructureAnnotation e)"
  have eq: "HasDisconnectAnnotation (fst (auditBundle e r b cs))
              = (Contains ?v ''Disconnected'' \<or> Contains ?v ''disconnected'')"
    by (simp only: auditBundle_flag labelled_simps(1))
  have absent: "\<not> (Contains ?v ''Disconnected'' \<or> Contains ?v ''disconnected'')"
    if "map_of (Annotations (BundleCSV b)) (InfrastructureAnnotation e) = None"
    using that by (simp add: annotationValue_def)
  show ?thesis
    using eq absent Contains_fold_disconnected [of ?v] by blast
qed

theorem disconnect_flag_two_spellings_witness:
  "map_of (Annotations (BundleCSV exBroken)) (InfrastructureAnnotation exEnv) = None
   \<and> \<not> HasDisconnectAnnotation (fst (auditBundle exEnv exReport exBroken []))
   \<and> HasDisconnectAnnotation (fst (auditBundle exEnv exReport exArm []))
   \<and> ContainsFold (annotationValue (Annotations (BundleCSV exArm)) (InfrastructureAnnotation exEnv))
        ''disconnected''"
proof -
  have h1: "map_of (Annotations (BundleCSV exBroken)) (InfrastructureAnnotation exEnv) = None"
    by code_simp
  have h2: "HasDisconnectAnnotation (fst (auditBundle exEnv exReport exArm []))"
    by code_simp
  show ?thesis
    using h1 h2 disconnect_flag_two_spellings [of exEnv exReport exBroken "[]"]
      disconnect_flag_two_spellings [of exEnv exReport exArm "[]"]
    by blast
qed

theorem disconnect_flag_counterexample:
  "ContainsFold (annotationValue (Annotations (BundleCSV exBundle)) (InfrastructureAnnotation exEnv))
     ''disconnected''
   \<and> \<not> HasDisconnectAnnotation (fst (auditBundle exEnv exReport exBundle []))"
  by code_simp

subsection \<open>The supported set\<close>

lemma supportPlatform_eq:
  "supportPlatform supp p =
     (if p \<noteq> [] then AList.update (platformToken p) (platformToken p) supp else supp)"
proof (cases "CHR ''.'' \<in> set p")
  case True
  then have "Split p ''.'' ! 1 = secondField p"
    unfolding secondField_def afterFirstDot_def by (rule Split_single_second(1))
  then show ?thesis
    using True by (auto simp: supportPlatform_def platformToken_def Contains_single)
next
  case False
  then show ?thesis
    by (simp add: supportPlatform_def platformToken_def Contains_single)
qed

lemma insertTokens_append:
  "insertTokens supp (ts @ us) = insertTokens (insertTokens supp ts) us"
  by (simp add: insertTokens_def)

lemma supportPlatforms_eq:
  "foldl supportPlatform supp v = insertTokens supp (map platformToken (filter (\<lambda>p. p \<noteq> []) v))"
  by (induction v arbitrary: supp) (simp_all add: insertTokens_def supportPlatform_eq)

lemma supportImages_eq:
  "supportImages supp images =
     insertTokens supp (map platformToken (filter (\<lambda>p. p \<noteq> []) (platformStrings images)))"
  unfolding supportImages_def platformStrings_def
proof (induction images arbitrary: supp)
  case Nil
  then show ?case by (simp add: insertTokens_def)
next
  case (Cons x images)
  show ?case
    using Cons.IH by (cases x) (simp add: supportPlatforms_eq insertTokens_append)
qed

lemma supportLabels_eq: "foldl supportLabel supp labels = insertTokens supp (map labelToken labels)"
  by (induction labels arbitrary: supp) (simp_all add: insertTokens_def supportLabel_def labelToken_def Let_def)

lemma checkSupport_eq:
  "Supported (checkSupport mb) =
     insertTokens (Supported mb)
       (map labelToken (InfraLabels mb)
        @ map platformToken (filter (\<lambda>p. p \<noteq> []) (platformStrings (RelateImages mb)))
        @ map platformToken (filter (\<lambda>p. p \<noteq> []) (platformStrings (InstallImages mb))))"
  by (simp add: checkSupport_def supportImages_eq supportLabels_eq insertTokens_append)

lemma insertTokens_keys: "set (mapKeys (insertTokens supp ts)) = set (mapKeys supp) \<union> set ts"
  unfolding insertTokens_def by (induction ts arbitrary: supp) auto

lemma insertTokens_lookup: "t \<in> set ts \<Longrightarrow> map_of (insertTokens supp ts) t = Some t"
proof (induction ts arbitrary: supp rule: rev_induct)
  case Nil
  then show ?case by simp
next
  case (snoc u ts)
  show ?case
  proof (cases "t = u")
    case True
    then show ?thesis by (simp add: insertTokens_def update_conv')
  next
    case False
    then have "t \<in> set ts" using snoc.prems by simp
    then have "map_of (insertTokens supp ts) t = Some t" by (rule snoc.IH)
    then show ?thesis using False by (simp add: insertTokens_def update_conv')
  qed
qed

text \<open>
  C3 (amended). After \<open>checkSupport\<close> the tokens of \<open>Supported\<close> are those it held
  before, the labels without their namespace prefix, and one token for every non-empty
  platform string recorded under either image map: the piece between the first \<open>"."\<close>
  and the next \<open>"."\<close> (or the end) when the string contains a \<open>"."\<close>, the whole string
  otherwise. Every such token is stored under itself. For a string with exactly one
  \<open>"."\<close> the token is the substring after it.
\<close>

theorem supported_tokens:
  "set (mapKeys (Supported (checkSupport mb)))
     = set (mapKeys (Supported mb)) \<union> labelToken ` set (InfraLabels mb)
       \<union> platformToken ` {p. p \<in> set (platformStrings (RelateImages mb)
                                        @ platformStrings (InstallImages mb)) \<and> p \<noteq> []}
   \<and> (p \<in> set (platformStrings (RelateImages mb) @ platformStrings (InstallImages mb))
        \<and> p \<noteq> [] \<longrightarrow>
        map_of (Supported (checkSupport mb)) (platformToken p) = Some (platformToken p))
   \<and> (CHR ''.'' \<in> set q \<and> CHR ''.'' \<notin> set (afterFirstDot q) \<longrightarrow>
        platformToken q = afterFirstDot q)"
proof -
  have keys: "set (mapKeys (Supported (checkSupport mb)))
     = set (mapKeys (Supported mb)) \<union> labelToken ` set (InfraLabels mb)
       \<union> platformToken ` {p. p \<in> set (platformStrings (RelateImages mb)
                                        @ platformStrings (InstallImages mb)) \<and> p \<noteq> []}"
    by (auto simp: checkSupport_eq insertTokens_keys)
  have stored: "map_of (Supported (checkSupport mb)) (platformToken p) = Some (platformToken p)"
    if "p \<in> set (platformStrings (RelateImages mb) @ platformStrings (InstallImages mb))"
      and "p \<noteq> []"
    unfolding checkSupport_eq using that by (intro insertTokens_lookup) auto
  have one: "platformToken q = afterFirstDot q"
    if "CHR ''.'' \<in> set q" and "CHR ''.'' \<notin> set (afterFirstDot q)"
    using that by (auto simp: platformToken_def secondField_def takeWhile_eq_all_conv)
  show ?thesis using keys stored one by blast
qed

theorem supported_tokens_witness:
  "''linux.arm.v7'' \<in> set (platformStrings (RelateImages (fst (gathered exEnv exReport exArm [])))
                              @ platformStrings (InstallImages (fst (gathered exEnv exReport exArm []))))
   \<and> map_of (Supported (checkSupport (fst (gathered exEnv exReport exArm [])))) ''arm'' = Some ''arm''
   \<and> CHR ''.'' \<in> set ''linux.amd64''
   \<and> platformToken ''linux.amd64'' = ''amd64''"
proof -
  let ?mb = "fst (gathered exEnv exReport exArm [])"
  have h1: "''linux.arm.v7'' \<in> set (platformStrings (RelateImages ?mb)
                                        @ platformStrings (InstallImages ?mb))"
    by code_simp
  have h2: "''linux.arm.v7'' \<noteq> []" by simp
  have h3: "CHR ''.'' \<in> set ''linux.amd64''" by simp
  have h4: "CHR ''.'' \<notin> set (afterFirstDot ''linux.amd64'')" by code_simp
  have t: "platformToken ''linux.arm.v7'' = ''arm''" by code_simp
  have a: "afterFirstDot ''linux.amd64'' = ''amd64''" by code_simp
  show ?thesis
    using h1 h2 h3 h4 supported_tokens [of ?mb "''linux.arm.v7''" "''linux.amd64''"]
    unfolding t a by blast
qed

theorem supported_tokens_counterexample:
  "platformStrings (RelateImages (fst (auditBundle exEnv exReport exArm []))) = [''linux.arm.v7'']
   \<and> afterFirstDot ''linux.arm.v7'' = ''arm.v7''
   \<and> mapKeys (Supported (fst (auditBundle exEnv exReport exArm []))) = [''arm'']"
  by code_simp

subsection \<open>Findings are told apart by the image they name\<close>

lemma shaMsg_inj: "shaMsg role name img = shaMsg role name img' \<Longrightarrow> img = img'"
  by (simp add: shaMsg_def)

lemma shaMsg_roles: "shaMsg ''releated'' name img \<noteq> shaMsg ''install'' name img'"
  by (simp add: shaMsg_def)

lemma count_list_distinct:
  "distinct xs \<Longrightarrow> count_list xs x = (if x \<in> set xs then 1 else 0)"
  by (induction xs) auto

lemma unpinned_set: "set (unpinned m) = {img \<in> set (mapKeys m). \<not> Contains img ''@sha256''}"
  by (auto simp: unpinned_def)

lemma unpinned_distinct: "distinct (mapKeys m) \<Longrightarrow> distinct (unpinned m)"
  by (simp add: unpinned_def)

lemma count_shaMsg:
  assumes "distinct (mapKeys m)"
  shows "count_list (map (shaMsg role name) (unpinned m)) (shaMsg role name img)
           = (if img \<in> set (mapKeys m) \<and> \<not> Contains img ''@sha256'' then 1 else 0)"
proof -
  have "distinct (map (shaMsg role name) (unpinned m))"
    using assms by (simp add: distinct_map unpinned_distinct inj_on_def shaMsg_inj)
  moreover have "shaMsg role name img \<in> set (map (shaMsg role name) (unpinned m))
                   \<longleftrightarrow> img \<in> set (unpinned m)"
    by (auto dest: shaMsg_inj)
  ultimately show ?thesis by (simp add: count_list_distinct unpinned_set)
qed

lemma count_shaMsg_other:
  "count_list (map (shaMsg ''install'' name) xs) (shaMsg ''releated'' name img) = 0"
  "count_list (map (shaMsg ''releated'' name) xs) (shaMsg ''install'' name img) = 0"
  using shaMsg_roles [of name] by (auto simp: count_list_0_iff dest: sym)

text \<open>
  C5 (amended). On a bundle with \<open>HasMultArchSupport\<close> true, \<open>checkSHA\<close> appends one
  finding for every key of the related-image map without \<open>"@sha256"\<close>, worded
  ``releated image'', then one for every such key of the install-image map, worded
  ``install image'', and nothing else. Each such key has exactly one finding of its
  map's wording; a reference that is a key of both maps therefore has two findings.
\<close>

theorem digest_finding_per_map_key:
  "HasMultArchSupport mb \<and> distinct (mapKeys (RelateImages mb))
     \<and> distinct (mapKeys (InstallImages mb)) \<longrightarrow>
   Validations (checkSHA mb)
     = Validations mb
       @ map (shaMsg ''releated'' (Name (BundleCSV (BundleData mb)))) (unpinned (RelateImages mb))
       @ map (shaMsg ''install'' (Name (BundleCSV (BundleData mb)))) (unpinned (InstallImages mb))
   \<and> set (unpinned (RelateImages mb))
       = {img \<in> set (mapKeys (RelateImages mb)). \<not> Contains img ''@sha256''}
   \<and> set (unpinned (InstallImages mb))
       = {img \<in> set (mapKeys (InstallImages mb)). \<not> Contains img ''@sha256''}
   \<and> count_list (digestFindings mb) (shaMsg ''releated'' (Name (BundleCSV (BundleData mb))) img)
       = (if img \<in> set (mapKeys (RelateImages mb)) \<and> \<not> Contains img ''@sha256'' then 1 else 0)
   \<and> count_list (digestFindings mb) (shaMsg ''install'' (Name (BundleCSV (BundleData mb))) img)
       = (if img \<in> set (mapKeys (InstallImages mb)) \<and> \<not> Contains img ''@sha256'' then 1 else 0)"
proof (intro impI)
  assume a: "HasMultArchSupport mb \<and> distinct (mapKeys (RelateImages mb))
     \<and> distinct (mapKeys (InstallImages mb))"
  let ?n = "Name (BundleCSV (BundleData mb))"
  have d: "digestFindings mb
             = map (shaMsg ''releated'' ?n) (unpinned (RelateImages mb))
               @ map (shaMsg ''install'' ?n) (unpinned (InstallImages mb))"
    using a by (simp add: digestFindings_def)
  have v: "Validations (checkSHA mb) = Validations mb @ digestFindings mb"
    by (simp add: checkSHA_eq)
  have r: "count_list (digestFindings mb) (shaMsg ''releated'' ?n img)
       = (if img \<in> set (mapKeys (RelateImages mb)) \<and> \<not> Contains img ''@sha256'' then 1 else 0)"
    using a by (simp only: d count_list_append count_shaMsg count_shaMsg_other)
  have i: "count_list (digestFindings mb) (shaMsg ''install'' ?n img)
       = (if img \<in> set (mapKeys (InstallImages mb)) \<and> \<not> Contains img ''@sha256'' then 1 else 0)"
    using a by (simp only: d count_list_append count_shaMsg count_shaMsg_other)
  show "Validations (checkSHA mb)
     = Validations mb
       @ map (shaMsg ''releated'' ?n) (unpinned (RelateImages mb))
       @ map (shaMsg ''install'' ?n) (unpinned (InstallImages mb))
   \<and> set (unpinned (RelateImages mb))
       = {img \<in> set (mapKeys (RelateImages mb)). \<not> Contains img ''@sha256''}
   \<and> set (unpinned (InstallImages mb))
       = {img \<in> set (mapKeys (InstallImages mb)). \<not> Contains img ''@sha256''}
   \<and> count_list (digestFindings mb) (shaMsg ''releated'' ?n img)
       = (if img \<in> set (mapKeys (RelateImages mb)) \<and> \<not> Contains img ''@sha256'' then 1 else 0)
   \<and> count_list (digestFindings mb) (shaMsg ''install'' ?n img)
       = (if img \<in> set (mapKeys (InstallImages mb)) \<and> \<not> Contains img ''@sha256'' then 1 else 0)"
  proof (intro conjI)
    show "Validations (checkSHA mb)
       = Validations mb
         @ map (shaMsg ''releated'' ?n) (unpinned (RelateImages mb))
         @ map (shaMsg ''install'' ?n) (unpinned (InstallImages mb))"
      by (simp only: v d)
  qed (rule unpinned_set r i)+
qed

theorem digest_finding_per_map_key_witness:
  "HasMultArchSupport (setMultArchSupport (fst (extractBundle exEnv exReport exBundle [])))
   \<and> Validations (checkSHA (setMultArchSupport (fst (extractBundle exEnv exReport exBundle []))))
       = [''[bundle op.v1]: releated image (registry/x:latest) is not set using SHA'',
          ''[bundle op.v1]: install image (registry/x:latest) is not set using SHA'']
   \<and> count_list (digestFindings (setMultArchSupport (fst (extractBundle exEnv exReport exBundle []))))
         (shaMsg ''install'' ''op.v1'' ''registry/x:latest'') = 1"
proof -
  let ?mb = "setMultArchSupport (fst (extractBundle exEnv exReport exBundle []))"
  have h: "HasMultArchSupport ?mb \<and> distinct (mapKeys (RelateImages ?mb))
     \<and> distinct (mapKeys (InstallImages ?mb))"
    by code_simp
  have n: "Name (BundleCSV (BundleData ?mb)) = ''op.v1''" by code_simp
  have k: "''registry/x:latest'' \<in> set (mapKeys (InstallImages ?mb))
           \<and> \<not> Contains ''registry/x:latest'' ''@sha256''"
    by code_simp
  have v: "Validations ?mb
       @ map (shaMsg ''releated'' ''op.v1'') (unpinned (RelateImages ?mb))
       @ map (shaMsg ''install'' ''op.v1'') (unpinned (InstallImages ?mb))
     = [''[bundle op.v1]: releated image (registry/x:latest) is not set using SHA'',
        ''[bundle op.v1]: install image (registry/x:latest) is not set using SHA'']"
    by code_simp
  have t: "Validations (checkSHA ?mb)
       = Validations ?mb
         @ map (shaMsg ''releated'' ''op.v1'') (unpinned (RelateImages ?mb))
         @ map (shaMsg ''install'' ''op.v1'') (unpinned (InstallImages ?mb))
     \<and> count_list (digestFindings ?mb) (shaMsg ''install'' ''op.v1'' ''registry/x:latest'')
         = (if ''registry/x:latest'' \<in> set (mapKeys (InstallImages ?mb))
               \<and> \<not> Contains ''registry/x:latest'' ''@sha256'' then 1 else 0)"
    using h digest_finding_per_map_key [of ?mb "''registry/x:latest''"]
    unfolding n by blast
  have c1: "Validations (checkSHA ?mb)
       = [''[bundle op.v1]: releated image (registry/x:latest) is not set using SHA'',
          ''[bundle op.v1]: install image (registry/x:latest) is not set using SHA'']"
    using t unfolding v by (rule conjunct1)
  have c2: "count_list (digestFindings ?mb) (shaMsg ''install'' ''op.v1'' ''registry/x:latest'') = 1"
    using t by (simp only: k simp_thms if_True)
  have h1: "HasMultArchSupport ?mb" using h by (rule conjunct1)
  show ?thesis by (intro conjI h1 c1 c2)
qed

theorem digest_finding_counterexample:
  "HasMultArchSupport (fst (auditBundle exEnv exReport exBundle []))
   \<and> ''registry/x:latest'' \<in> set (mapKeys (RelateImages (fst (auditBundle exEnv exReport exBundle []))))
   \<and> \<not> Contains ''registry/x:latest'' ''@sha256''
   \<and> take 2 (Validations (fst (auditBundle exEnv exReport exBundle [])))
       = [''[bundle op.v1]: releated image (registry/x:latest) is not set using SHA'',
          ''[bundle op.v1]: install image (registry/x:latest) is not set using SHA'']"
  by code_simp

subsection \<open>Coverage findings of one image\<close>

lemma missingPairs_Cons:
  "missingPairs ((img, arc) # images) sups =
     map (Pair img) (filter (\<lambda>su. \<not> list_ex (\<lambda>t. Contains t su) arc) sups)
       @ missingPairs images sups"
  by (simp add: missingPairs_def)

lemma missingPairs_other:
  "img \<notin> set (mapKeys images) \<Longrightarrow> filter (\<lambda>p. fst p = img) (missingPairs images sups) = []"
  using missingPairs_fst [of images sups] by (auto simp: filter_empty_conv)

lemma missingPairs_of_image:
  "distinct (mapKeys images) \<Longrightarrow> img \<in> set (mapKeys images) \<Longrightarrow>
   filter (\<lambda>p. fst p = img) (missingPairs images sups) =
     map (Pair img) (filter (\<lambda>su. \<not> list_ex (\<lambda>t. Contains t su) (mapGet images img)) sups)"
proof (induction images)
  case Nil
  then show ?case by (simp add: mapKeys_def)
next
  case (Cons x images)
  obtain k arc where x: "x = (k, arc)" by (cases x)
  have notin: "k \<notin> set (mapKeys images)" and d: "distinct (mapKeys images)"
    using Cons.prems(1) by (simp_all add: mapKeys_def x)
  show ?case
  proof (cases "k = img")
    case True
    have "filter (\<lambda>p. fst p = img) (missingPairs images sups) = []"
      using notin True by (simp add: missingPairs_other)
    moreover have "mapGet (x # images) img = arc"
      by (simp add: mapGet_def x True)
    moreover have "filter (\<lambda>p. fst p = img) (map (Pair img) ys) = map (Pair img) ys" for ys :: "string list"
      by (induction ys) auto
    ultimately show ?thesis
      by (simp add: x True missingPairs_Cons)
  next
    case False
    then have mem: "img \<in> set (mapKeys images)"
      using Cons.prems(2) by (simp add: mapKeys_def x)
    have "filter (\<lambda>p. fst p = img) (map (Pair k) ys) = []" for ys :: "string list"
      using False by (induction ys) auto
    moreover have "mapGet (x # images) img = mapGet images img"
      using False by (simp add: mapGet_def x)
    ultimately show ?thesis
      using Cons.IH [OF d mem] by (simp add: x missingPairs_Cons)
  qed
qed

text \<open>
  C6. On a bundle with \<open>HasMultArchSupport\<close> true, \<open>checkMissingArchtype\<close> appends
  one finding, naming the bundle, the role, the image and the token, for every pair of a
  key of the related-image map and a token of \<open>Supported\<close> such that no platform string
  recorded for the image contains the token, then the same for the install-image map, and
  nothing else. In a map with one entry per key, no pair occurs twice, and the pairs of
  one image are as many as the supported tokens that no platform string of it contains.
\<close>

theorem coverage_cross_product:
  "(HasMultArchSupport mb \<longrightarrow>
      Validations (checkMissingArchtype mb)
        = Validations mb
          @ map (\<lambda>(img, su). archMsg ''related'' (Name (BundleCSV (BundleData mb))) img su)
              (missingPairs (RelateImages mb) (mapKeys (Supported mb)))
          @ map (\<lambda>(img, su). archMsg ''install'' (Name (BundleCSV (BundleData mb))) img su)
              (missingPairs (InstallImages mb) (mapKeys (Supported mb))))
   \<and> (distinct (mapKeys m) \<and> distinct sups \<longrightarrow>
        distinct (missingPairs m sups)
        \<and> ((img, su) \<in> set (missingPairs m sups)
             \<longleftrightarrow> img \<in> set (mapKeys m) \<and> su \<in> set sups
                 \<and> \<not> (\<exists>t \<in> set (mapGet m img). Contains t su))
        \<and> (img \<in> set (mapKeys m) \<longrightarrow>
             length (filter (\<lambda>p. fst p = img) (missingPairs m sups))
               = length (filter (\<lambda>su. \<not> (\<exists>t \<in> set (mapGet m img). Contains t su)) sups)))"
proof (intro conjI impI)
  assume "HasMultArchSupport mb"
  then show "Validations (checkMissingArchtype mb)
        = Validations mb
          @ map (\<lambda>(img, su). archMsg ''related'' (Name (BundleCSV (BundleData mb))) img su)
              (missingPairs (RelateImages mb) (mapKeys (Supported mb)))
          @ map (\<lambda>(img, su). archMsg ''install'' (Name (BundleCSV (BundleData mb))) img su)
              (missingPairs (InstallImages mb) (mapKeys (Supported mb)))"
    by (simp add: checkMissingArchtype_eq coverageFindings_def)
next
  assume "distinct (mapKeys m) \<and> distinct sups"
  then show "distinct (missingPairs m sups)"
    by (simp add: missingPairs_distinct)
next
  assume "distinct (mapKeys m) \<and> distinct sups"
  then show "((img, su) \<in> set (missingPairs m sups))
             = (img \<in> set (mapKeys m) \<and> su \<in> set sups
                 \<and> \<not> (\<exists>t \<in> set (mapGet m img). Contains t su))"
    by (simp add: missingPairs_mem list_ex_iff)
next
  assume "distinct (mapKeys m) \<and> distinct sups" and "img \<in> set (mapKeys m)"
  then have "filter (\<lambda>p. fst p = img) (missingPairs m sups) =
     map (Pair img) (filter (\<lambda>su. \<not> list_ex (\<lambda>t. Contains t su) (mapGet m img)) sups)"
    by (simp add: missingPairs_of_image)
  then show "length (filter (\<lambda>p. fst p = img) (missingPairs m sups))
               = length (filter (\<lambda>su. \<not> (\<exists>t \<in> set (mapGet m img). Contains t su)) sups)"
    by (simp add: list_ex_iff)
qed

theorem coverage_cross_product_witness:
  "HasMultArchSupport (setMultArchSupport (fst (extractBundle exEnv exReport exThree [])))
   \<and> Validations (checkMissingArchtype (setMultArchSupport (fst (extractBundle exEnv exReport exThree []))))
       = [''[bundle three.v1]: related image (registry/x@sha256:abc) is missing manifest archetype for s390x'',
          ''[bundle three.v1]: related image (registry/x@sha256:abc) is missing manifest archetype for ppc64le'']
   \<and> (''registry/x@sha256:abc'', ''s390x'')
         \<in> set (missingPairs [(''registry/x@sha256:abc'', [''linux.amd64''])] [''amd64'', ''s390x'', ''ppc64le''])
   \<and> length (filter (\<lambda>p. fst p = ''registry/x@sha256:abc'')
         (missingPairs [(''registry/x@sha256:abc'', [''linux.amd64''])] [''amd64'', ''s390x'', ''ppc64le'']))
       = 2"
proof -
  let ?mb = "setMultArchSupport (fst (extractBundle exEnv exReport exThree []))"
  let ?m = "[(''registry/x@sha256:abc'', [''linux.amd64''])]"
  let ?sups = "[''amd64'', ''s390x'', ''ppc64le'']"
  let ?img = "''registry/x@sha256:abc''"
  note t = coverage_cross_product [of ?mb ?m ?sups ?img "''s390x''"]
  have h1: "HasMultArchSupport ?mb" by code_simp
  have h2: "distinct (mapKeys ?m) \<and> distinct ?sups" by code_simp
  have h3: "?img \<in> set (mapKeys ?m)" by code_simp
  have h4: "?img \<in> set (mapKeys ?m) \<and> ''s390x'' \<in> set ?sups
              \<and> \<not> (\<exists>t \<in> set (mapGet ?m ?img). Contains t ''s390x'')"
    by code_simp
  have v: "Validations ?mb
          @ map (\<lambda>(img, su). archMsg ''related'' (Name (BundleCSV (BundleData ?mb))) img su)
              (missingPairs (RelateImages ?mb) (mapKeys (Supported ?mb)))
          @ map (\<lambda>(img, su). archMsg ''install'' (Name (BundleCSV (BundleData ?mb))) img su)
              (missingPairs (InstallImages ?mb) (mapKeys (Supported ?mb)))
     = [''[bundle three.v1]: related image (registry/x@sha256:abc) is missing manifest archetype for s390x'',
        ''[bundle three.v1]: related image (registry/x@sha256:abc) is missing manifest archetype for ppc64le'']"
    by code_simp
  have n: "length (filter (\<lambda>su. \<not> (\<exists>t \<in> set (mapGet ?m ?img). Contains t su)) ?sups) = 2"
    by code_simp
  have c1: "Validations (checkMissingArchtype ?mb)
       = [''[bundle three.v1]: related image (registry/x@sha256:abc) is missing manifest archetype for s390x'',
          ''[bundle three.v1]: related image (registry/x@sha256:abc) is missing manifest archetype for ppc64le'']"
    using t [THEN conjunct1, THEN mp, OF h1] unfolding v .
  note p = t [THEN conjunct2, THEN mp, OF h2]
  have c2: "(?img, ''s390x'') \<in> set (missingPairs ?m ?sups)"
    using p [THEN conjunct2, THEN conjunct1] h4 by (rule iffD2)
  have c3: "length (filter (\<lambda>p. fst p = ?img) (missingPairs ?m ?sups)) = 2"
    using p [THEN conjunct2, THEN conjunct2, THEN mp, OF h3] unfolding n .
  show ?thesis by (intro conjI h1 c1 c2 c3)
qed

subsection \<open>The calls to the inspector\<close>

lemma installImage_calls:
  "snd (installImage e engine st img) =
     snd st @ replicate (if isl (Inspect e (length (snd st)) img engine) then 2 else 1) (img, engine)"
  by (cases st)
    (auto simp: installImage_def RunDockerManifestInspect_def numeral_2_eq_2 split: sum.splits)

lemma relateImage_calls:
  "snd (relateImage e engine st img) =
     snd st @ replicate (if isl (Inspect e (length (snd st)) img engine) then 2 else 1) (img, engine)"
  by (cases st)
    (auto simp: relateImage_def RunDockerManifestInspect_def Let_def numeral_2_eq_2
          split: sum.splits)

lemma callsFor_Cons:
  "callsFor engine (img # imgs) (k # ks) = replicate k (img, engine) @ callsFor engine imgs ks"
  by (simp add: callsFor_def)

lemma callsFor_append:
  "length ks = length imgs \<Longrightarrow>
   callsFor engine (imgs @ imgs') (ks @ ks') = callsFor engine imgs ks @ callsFor engine imgs' ks'"
  by (simp add: callsFor_def)

lemma callsFor_subset: "set (callsFor engine imgs ks) \<subseteq> set imgs \<times> {engine}"
  by (auto simp: callsFor_def dest!: set_zip_leftD)

lemma foldl_calls:
  fixes f :: "MultiArchBundle \<times> calls \<Rightarrow> string \<Rightarrow> MultiArchBundle \<times> calls"
  assumes step: "\<And>st img. \<exists>k. (k = 1 \<or> k = 2) \<and> snd (f st img) = snd st @ replicate k (img, engine)"
  shows "\<exists>ks. length ks = length imgs \<and> set ks \<subseteq> {1, 2}
              \<and> snd (foldl f st imgs) = snd st @ callsFor engine imgs ks"
proof (induction imgs arbitrary: st)
  case Nil
  then show ?case by (simp add: callsFor_def)
next
  case (Cons img imgs)
  obtain k where k: "k = 1 \<or> k = 2" "snd (f st img) = snd st @ replicate k (img, engine)"
    using step by blast
  obtain ks where ks: "length ks = length imgs" "set ks \<subseteq> {1, 2}"
      "snd (foldl f (f st img) imgs) = snd (f st img) @ callsFor engine imgs ks"
    using Cons.IH by blast
  have "length (k # ks) = length (img # imgs)" using ks(1) by simp
  moreover have "set (k # ks) \<subseteq> {1, 2}" using k(1) ks(2) by auto
  moreover have "snd (foldl f st (img # imgs)) = snd st @ callsFor engine (img # imgs) (k # ks)"
    using k(2) ks(3) by (simp add: callsFor_Cons)
  ultimately show ?case by blast
qed

lemma foldl_foldl_concat: "foldl (\<lambda>s xs. foldl f s xs) s xss = foldl f s (concat xss)"
  by (induction xss arbitrary: s) simp_all

lemma addDataFromInstallImages_calls:
  "\<exists>ks. length ks = length (concat (DeploymentSpecs (BundleCSV (BundleData (fst st)))))
        \<and> set ks \<subseteq> {1, 2}
        \<and> snd (addDataFromInstallImages e r st)
            = snd st @ callsFor (ContainerEngine (Flags r))
                         (concat (DeploymentSpecs (BundleCSV (BundleData (fst st))))) ks"
proof -
  obtain mb cs where st: "st = (mb, cs)" by (cases st)
  have "\<exists>ks. length ks = length (concat (DeploymentSpecs (BundleCSV (BundleData mb))))
        \<and> set ks \<subseteq> {1, 2}
        \<and> snd (foldl (installImage e (ContainerEngine (Flags r))) (mb\<lparr>InstallImages := []\<rparr>, cs)
                 (concat (DeploymentSpecs (BundleCSV (BundleData mb)))))
            = snd (mb\<lparr>InstallImages := []\<rparr>, cs) @ callsFor (ContainerEngine (Flags r))
                         (concat (DeploymentSpecs (BundleCSV (BundleData mb)))) ks"
    by (rule foldl_calls) (auto simp: installImage_calls)
  then show ?thesis
    by (simp add: st addDataFromInstallImages_def foldl_foldl_concat)
qed

lemma addDataFromRelateImages_calls:
  "\<exists>ks. length ks = length (RelatedImages (BundleCSV (BundleData (fst st))))
        \<and> set ks \<subseteq> {1, 2}
        \<and> snd (addDataFromRelateImages e r st)
            = snd st @ callsFor (ContainerEngine (Flags r))
                         (RelatedImages (BundleCSV (BundleData (fst st)))) ks"
proof -
  obtain mb cs where st: "st = (mb, cs)" by (cases st)
  have "\<exists>ks. length ks = length (RelatedImages (BundleCSV (BundleData mb)))
        \<and> set ks \<subseteq> {1, 2}
        \<and> snd (foldl (relateImage e (ContainerEngine (Flags r))) (mb\<lparr>RelateImages := []\<rparr>, cs)
                 (RelatedImages (BundleCSV (BundleData mb))))
            = snd (mb\<lparr>RelateImages := []\<rparr>, cs) @ callsFor (ContainerEngine (Flags r))
                         (RelatedImages (BundleCSV (BundleData mb))) ks"
    by (rule foldl_calls) (auto simp: relateImage_calls)
  then show ?thesis
    by (simp add: st addDataFromRelateImages_def)
qed

lemma addDataFromInstallImages_csv:
  "BundleCSV (BundleData (fst (addDataFromInstallImages e r st))) = BundleCSV (BundleData (fst st))"
  using addDataFromInstallImages_frame [of e r st] by (simp add: fixedPart_def)

lemma auditBundle_calls:
  "\<exists>ks. length ks = length (imagesOf b) \<and> set ks \<subseteq> {1, 2}
        \<and> snd (auditBundle e r b cs) = cs @ callsFor (ContainerEngine (Flags r)) (imagesOf b) ks"
proof -
  let ?eng = "ContainerEngine (Flags r)"
  let ?st1 = "addDataFromInstallImages e r (labelled e b, cs)"
  obtain ks1 where 1: "length ks1 = length (concat (DeploymentSpecs (BundleCSV b)))"
      "set ks1 \<subseteq> {1, 2}"
      "snd ?st1 = cs @ callsFor ?eng (concat (DeploymentSpecs (BundleCSV b))) ks1"
    using addDataFromInstallImages_calls [of "(labelled e b, cs)" e r]
    by (auto simp: labelled_simps(5))
  have csv: "BundleCSV (BundleData (fst ?st1)) = BundleCSV b"
    by (simp add: addDataFromInstallImages_csv labelled_simps(5))
  obtain ks2 where 2: "length ks2 = length (RelatedImages (BundleCSV b))"
      "set ks2 \<subseteq> {1, 2}"
      "snd (addDataFromRelateImages e r ?st1) = snd ?st1 @ callsFor ?eng (RelatedImages (BundleCSV b)) ks2"
    using addDataFromRelateImages_calls [of ?st1 e r] unfolding csv by auto
  have "snd (auditBundle e r b cs) = snd (addDataFromRelateImages e r ?st1)"
    by (simp add: auditBundle_eq extractBundle_simps gathered_def)
  then have "snd (auditBundle e r b cs) = cs @ callsFor ?eng (imagesOf b) (ks1 @ ks2)"
    using 1 2 by (simp add: imagesOf_def callsFor_append)
  moreover have "length (ks1 @ ks2) = length (imagesOf b)"
    using 1(1) 2(1) by (simp add: imagesOf_def)
  moreover have "set (ks1 @ ks2) \<subseteq> {1, 2}" using 1(2) 2(2) by simp
  ultimately show ?thesis by blast
qed

text \<open>
  C7. Inspecting one image, as an install image or as a related image: a first call that
  succeeds is the only call; a first call that fails is followed by exactly one more call
  with the same image and engine. When that second call fails too, the install step appends
  its error text to \<open>AuditErrors\<close> and changes nothing else, while the related step
  appends the error text to \<open>AuditErrors\<close> and one finding to \<open>Validations\<close>; when it
  succeeds, its platforms are recorded as after a first success. Over a whole bundle the
  calls are, for each image reference in order, one call or two identical calls.
\<close>

theorem inspect_retried_once:
  "(\<not> isl (Inspect e (length cs) img engine) \<longrightarrow>
      snd (installImage e engine (mb, cs) img) = cs @ [(img, engine)]
      \<and> snd (relateImage e engine (mb, cs) img) = cs @ [(img, engine)])
   \<and> (isl (Inspect e (length cs) img engine) \<longrightarrow>
      snd (installImage e engine (mb, cs) img) = cs @ [(img, engine), (img, engine)]
      \<and> snd (relateImage e engine (mb, cs) img) = cs @ [(img, engine), (img, engine)])
   \<and> (Inspect e (length cs) img engine = Inl err1
        \<and> Inspect e (Suc (length cs)) img engine = Inl err2 \<longrightarrow>
      fst (installImage e engine (mb, cs) img)
        = mb\<lparr>BundleData := (BundleData mb)\<lparr>AuditErrors := AuditErrors (BundleData mb) @ [err2]\<rparr>\<rparr>
      \<and> fst (relateImage e engine (mb, cs) img)
        = mb\<lparr>BundleData := (BundleData mb)\<lparr>AuditErrors := AuditErrors (BundleData mb) @ [err2]\<rparr>,
             Validations := Validations mb @ [inspectFailedMsg img err2]\<rparr>)
   \<and> (Inspect e (length cs) img engine = Inl err1
        \<and> Inspect e (Suc (length cs)) img engine = Inr manifest \<longrightarrow>
      fst (installImage e engine (mb, cs) img)
        = mb\<lparr>InstallImages := appendPlatforms img manifest (InstallImages mb)\<rparr>
      \<and> fst (relateImage e engine (mb, cs) img)
        = mb\<lparr>RelateImages := appendPlatforms img manifest (RelateImages mb)\<rparr>)
   \<and> (\<exists>ks. length ks = length (imagesOf b) \<and> set ks \<subseteq> {1, 2}
         \<and> snd (auditBundle e r b cs) = cs @ callsFor (ContainerEngine (Flags r)) (imagesOf b) ks)"
proof (intro conjI impI)
  assume "\<not> isl (Inspect e (length cs) img engine)"
  then show "snd (installImage e engine (mb, cs) img) = cs @ [(img, engine)]"
    and "snd (relateImage e engine (mb, cs) img) = cs @ [(img, engine)]"
    by (simp_all add: installImage_calls relateImage_calls)
next
  assume "isl (Inspect e (length cs) img engine)"
  then show "snd (installImage e engine (mb, cs) img) = cs @ [(img, engine), (img, engine)]"
    and "snd (relateImage e engine (mb, cs) img) = cs @ [(img, engine), (img, engine)]"
    by (simp_all add: installImage_calls relateImage_calls numeral_2_eq_2)
next
  assume "Inspect e (length cs) img engine = Inl err1
        \<and> Inspect e (Suc (length cs)) img engine = Inl err2"
  then show "fst (installImage e engine (mb, cs) img)
        = mb\<lparr>BundleData := (BundleData mb)\<lparr>AuditErrors := AuditErrors (BundleData mb) @ [err2]\<rparr>\<rparr>"
    and "fst (relateImage e engine (mb, cs) img)
        = mb\<lparr>BundleData := (BundleData mb)\<lparr>AuditErrors := AuditErrors (BundleData mb) @ [err2]\<rparr>,
             Validations := Validations mb @ [inspectFailedMsg img err2]\<rparr>"
    by (simp_all add: installImage_def relateImage_def RunDockerManifestInspect_def
          appendAuditError_def Let_def)
next
  assume "Inspect e (length cs) img engine = Inl err1
        \<and> Inspect e (Suc (length cs)) img engine = Inr manifest"
  then show "fst (installImage e engine (mb, cs) img)
        = mb\<lparr>InstallImages := appendPlatforms img manifest (InstallImages mb)\<rparr>"
    and "fst (relateImage e engine (mb, cs) img)
        = mb\<lparr>RelateImages := appendPlatforms img manifest (RelateImages mb)\<rparr>"
    by (simp_all add: installImage_def relateImage_def RunDockerManifestInspect_def)
next
  show "\<exists>ks. length ks = length (imagesOf b) \<and> set ks \<subseteq> {1, 2}
         \<and> snd (auditBundle e r b cs) = cs @ callsFor (ContainerEngine (Flags r)) (imagesOf b) ks"
    by (rule auditBundle_calls)
qed

theorem inspect_retried_once_witness:
  "snd (installImage exEnv ''docker'' (newMultiArchBundle exBroken, []) ''registry/x:latest'')
     = [(''registry/x:latest'', ''docker'')]
   \<and> snd (relateImage exEnv ''docker'' (newMultiArchBundle exBroken, []) ''registry/broken'')
     = [(''registry/broken'', ''docker''), (''registry/broken'', ''docker'')]
   \<and> fst (installImage exEnv ''docker'' (newMultiArchBundle exBroken, []) ''registry/broken'')
     = (newMultiArchBundle exBroken)
         \<lparr>BundleData := (BundleData (newMultiArchBundle exBroken))
            \<lparr>AuditErrors := AuditErrors (BundleData (newMultiArchBundle exBroken))
                             @ [''manifest unknown'']\<rparr>\<rparr>
   \<and> fst (relateImage exEnv ''docker'' (newMultiArchBundle exBroken, []) ''registry/flaky'')
     = (newMultiArchBundle exBroken)
         \<lparr>RelateImages := appendPlatforms ''registry/flaky'' [(''linux'', ''amd64'')]
                            (RelateImages (newMultiArchBundle exBroken))\<rparr>"
proof -
  let ?mb = "newMultiArchBundle exBroken"
  note ok = inspect_retried_once [where e = exEnv and cs = "[]" and img = "''registry/x:latest''"
      and engine = "''docker''" and mb = ?mb]
  note broken = inspect_retried_once [where e = exEnv and cs = "[]" and img = "''registry/broken''"
      and engine = "''docker''" and mb = ?mb and ?err1.0 = "''manifest unknown''"
      and ?err2.0 = "''manifest unknown''"]
  note flaky = inspect_retried_once [where e = exEnv and cs = "[]" and img = "''registry/flaky''"
      and engine = "''docker''" and mb = ?mb and ?err1.0 = "''timeout''"
      and manifest = "[(''linux'', ''amd64'')]"]
  have h1: "\<not> isl (Inspect exEnv (length []) ''registry/x:latest'' ''docker'')"
    by code_simp
  have h2: "isl (Inspect exEnv (length []) ''registry/broken'' ''docker'')"
    by code_simp
  have h3: "Inspect exEnv (length []) ''registry/broken'' ''docker'' = Inl ''manifest unknown''
        \<and> Inspect exEnv (Suc (length [])) ''registry/broken'' ''docker'' = Inl ''manifest unknown''"
    by code_simp
  have h4: "Inspect exEnv (length []) ''registry/flaky'' ''docker'' = Inl ''timeout''
        \<and> Inspect exEnv (Suc (length [])) ''registry/flaky'' ''docker'' = Inr [(''linux'', ''amd64'')]"
    by code_simp
  have c1: "snd (installImage exEnv ''docker'' (?mb, []) ''registry/x:latest'')
              = [] @ [(''registry/x:latest'', ''docker'')]"
    using ok [THEN conjunct1, THEN mp, OF h1] by (rule conjunct1)
  have c2: "snd (relateImage exEnv ''docker'' (?mb, []) ''registry/broken'')
              = [] @ [(''registry/broken'', ''docker''), (''registry/broken'', ''docker'')]"
    using broken [THEN conjunct2, THEN conjunct1, THEN mp, OF h2] by (rule conjunct2)
  have c3: "fst (installImage exEnv ''docker'' (?mb, []) ''registry/broken'')
     = ?mb\<lparr>BundleData := (BundleData ?mb)
            \<lparr>AuditErrors := AuditErrors (BundleData ?mb) @ [''manifest unknown'']\<rparr>\<rparr>"
    using broken [THEN conjunct2, THEN conjunct2, THEN conjunct1, THEN mp, OF h3]
    by (rule conjunct1)
  have c4: "fst (relateImage exEnv ''docker'' (?mb, []) ''registry/flaky'')
     = ?mb\<lparr>RelateImages := appendPlatforms ''registry/flaky'' [(''linux'', ''amd64'')]
                            (RelateImages ?mb)\<rparr>"
    using flaky [THEN conjunct2, THEN conjunct2, THEN conjunct2, THEN conjunct1, THEN mp, OF h4]
    by (rule conjunct2)
  show ?thesis
    using c1 c2 c3 c4 unfolding append_Nil by (intro conjI)
qed

subsection \<open>Images whose every inspection fails\<close>

lemma allCallsFail_iff:
  "allCallsFail e before after ref \<longleftrightarrow>
     (\<forall>n. length before \<le> n \<and> n < length after \<and> fst (after ! n) = ref
          \<longrightarrow> isl (Inspect e n ref (snd (after ! n))))"
  by (auto simp: allCallsFail_def list_all_iff)

lemma allCallsFail_later:
  "allCallsFail e before after ref \<Longrightarrow> length before \<le> length before' \<Longrightarrow>
   allCallsFail e before' after ref"
  by (auto simp: allCallsFail_iff)

lemma allCallsFail_prefix:
  "allCallsFail e before (mid @ rest) ref \<Longrightarrow> allCallsFail e before mid ref"
  unfolding allCallsFail_iff
proof (intro allI impI)
  fix n
  assume a: "\<forall>n. length before \<le> n \<and> n < length (mid @ rest) \<and> fst ((mid @ rest) ! n) = ref
          \<longrightarrow> isl (Inspect e n ref (snd ((mid @ rest) ! n)))"
    and n: "length before \<le> n \<and> n < length mid \<and> fst (mid ! n) = ref"
  have "(mid @ rest) ! n = mid ! n" using n by (simp add: nth_append)
  then show "isl (Inspect e n ref (snd (mid ! n)))"
    using a [rule_format, of n] n by simp
qed

lemma inspectsD:
  "inspects e engine f \<Longrightarrow>
   snd (f st img) =
     snd st @ replicate (if isl (Inspect e (length (snd st)) img engine) then 2 else 1)
                (img, engine)"
  unfolding inspects_def by blast

lemma inspects_length: "inspects e engine f \<Longrightarrow> length (snd st) \<le> length (snd (f st img))"
  by (simp add: inspectsD)

lemma inspects_installImage: "inspects e engine (installImage e engine)"
  by (simp add: inspects_def installImage_calls)

lemma inspects_relateImage: "inspects e engine (relateImage e engine)"
  by (simp add: inspects_def relateImage_calls)

lemma inspects_extends:
  assumes "inspects e engine f"
  shows "\<exists>more. snd (foldl f st imgs) = snd st @ more"
proof (induction imgs arbitrary: st)
  case Nil
  then show ?case by simp
next
  case (Cons img imgs)
  obtain more where "snd (foldl f (f st img) imgs) = snd (f st img) @ more"
    using Cons.IH by blast
  then have "snd (foldl f st (img # imgs)) =
      snd st @ (replicate (if isl (Inspect e (length (snd st)) img engine) then 2 else 1)
                   (img, engine) @ more)"
    by (simp add: inspectsD [OF assms])
  then show ?case by blast
qed

lemma both_attempts_fail:
  assumes f: "inspects e engine f"
    and fail: "allCallsFail e (snd st) (snd (foldl f (f st ref) imgs)) ref"
  shows "isl (Inspect e (length (snd st)) ref engine)
         \<and> isl (Inspect e (Suc (length (snd st))) ref engine)"
proof -
  let ?n = "length (snd st)"
  let ?k = "if isl (Inspect e ?n ref engine) then 2 else 1 :: nat"
  obtain more where more: "snd (foldl f (f st ref) imgs) = snd (f st ref) @ more"
    using inspects_extends [OF f] by blast
  have step: "snd (f st ref) = snd st @ replicate ?k (ref, engine)"
    by (rule inspectsD [OF f])
  let ?log = "snd st @ replicate ?k (ref, engine) @ more"
  have log: "snd (foldl f (f st ref) imgs) = ?log" using more step by simp
  have all: "\<And>n. ?n \<le> n \<Longrightarrow> n < length ?log \<Longrightarrow> fst (?log ! n) = ref
                 \<Longrightarrow> isl (Inspect e n ref (snd (?log ! n)))"
    using fail unfolding log allCallsFail_iff by blast
  have at0: "?log ! ?n = (ref, engine)" by (simp add: nth_append)
  have "?n < length ?log" by simp
  then have first: "isl (Inspect e ?n ref engine)"
    using all [of ?n] at0 by (simp only: fst_conv snd_conv le_refl)
  then have at1: "?log ! Suc ?n = (ref, engine)"
    by (simp add: nth_append numeral_2_eq_2)
  have "Suc ?n < length ?log" using first by simp
  then have "isl (Inspect e (Suc ?n) ref engine)"
    using all [of "Suc ?n"] at1 by (simp only: fst_conv snd_conv le_SucI le_refl)
  then show ?thesis using first by simp
qed

lemma fold_never:
  assumes f: "inspects e engine f"
    and other: "\<And>st img. img \<noteq> ref \<Longrightarrow> I st \<Longrightarrow> I (f st img)"
    and failed: "\<And>st. isl (Inspect e (length (snd st)) ref engine) \<Longrightarrow>
                      isl (Inspect e (Suc (length (snd st))) ref engine) \<Longrightarrow> I st \<Longrightarrow> I (f st ref)"
  shows "I st \<Longrightarrow> allCallsFail e (snd st) (snd (foldl f st imgs)) ref \<Longrightarrow> I (foldl f st imgs)"
proof (induction imgs arbitrary: st)
  case Nil
  then show ?case by simp
next
  case (Cons img imgs)
  have len: "length (snd st) \<le> length (snd (f st img))"
    by (rule inspects_length [OF f])
  have later: "allCallsFail e (snd (f st img)) (snd (foldl f (f st img) imgs)) ref"
    using Cons.prems(2) len by (auto intro: allCallsFail_later)
  have "I (f st img)"
  proof (cases "img = ref")
    case True
    then show ?thesis
      using both_attempts_fail [OF f, of st ref imgs] Cons.prems failed by simp
  next
    case False
    then show ?thesis using other Cons.prems(1) by blast
  qed
  then show ?case using Cons.IH later by simp
qed

lemma fold_once_from:
  assumes f: "inspects e engine f"
    and keepQ: "\<And>st img. Q st \<Longrightarrow> Q (f st img)"
    and keepI: "\<And>st img. I st \<Longrightarrow> I (f st img)"
    and failed: "\<And>st. isl (Inspect e (length (snd st)) ref engine) \<Longrightarrow>
                      isl (Inspect e (Suc (length (snd st))) ref engine) \<Longrightarrow> I st \<Longrightarrow> Q (f st ref)"
  shows "I st \<Longrightarrow> ref \<in> set imgs \<Longrightarrow> allCallsFail e (snd st) (snd (foldl f st imgs)) ref
         \<Longrightarrow> Q (foldl f st imgs)"
proof (induction imgs arbitrary: st)
  case Nil
  then show ?case by simp
next
  case (Cons img imgs)
  have len: "length (snd st) \<le> length (snd (f st img))"
    by (rule inspects_length [OF f])
  have later: "allCallsFail e (snd (f st img)) (snd (foldl f (f st img) imgs)) ref"
    using Cons.prems(3) len by (auto intro: allCallsFail_later)
  show ?case
  proof (cases "img = ref")
    case True
    then have "Q (f st img)"
      using both_attempts_fail [OF f, of st ref imgs] Cons.prems(1,3) failed by simp
    then have "Q (foldl f (f st img) imgs)"
      by (rule foldl_inv) (rule keepQ)
    then show ?thesis by simp
  next
    case False
    then have "ref \<in> set imgs" using Cons.prems(2) by simp
    moreover have "I (f st img)" using Cons.prems(1) by (rule keepI)
    ultimately show ?thesis using Cons.IH later by simp
  qed
qed

lemma installImage_failed:
  assumes "isl (Inspect e (length (snd st)) img engine)"
    and "isl (Inspect e (Suc (length (snd st))) img engine)"
  shows "fst (installImage e engine st img) =
           appendAuditError (projl (Inspect e (Suc (length (snd st))) img engine)) (fst st)"
  using assms
  by (cases st) (auto simp: installImage_def RunDockerManifestInspect_def split: sum.splits)

lemma relateImage_failed:
  assumes "isl (Inspect e (length (snd st)) img engine)"
    and "isl (Inspect e (Suc (length (snd st))) img engine)"
  shows "fst (relateImage e engine st img) =
           (appendAuditError (projl (Inspect e (Suc (length (snd st))) img engine)) (fst st))
             \<lparr>Validations := Validations (fst st)
                @ [inspectFailedMsg img (projl (Inspect e (Suc (length (snd st))) img engine))]\<rparr>"
  using assms
  by (cases st)
    (auto simp: relateImage_def RunDockerManifestInspect_def Let_def appendAuditError_def
          split: sum.splits)

lemma installImage_other_key:
  "img \<noteq> ref \<Longrightarrow> ref \<notin> set (mapKeys (InstallImages (fst st))) \<Longrightarrow>
   ref \<notin> set (mapKeys (InstallImages (fst (installImage e engine st img))))"
  using installImage_cases [of e engine "fst st" "snd st" img]
  by (auto simp: appendPlatforms_keys split: if_splits)

lemma relateImage_other_key:
  "img \<noteq> ref \<Longrightarrow> ref \<notin> set (mapKeys (RelateImages (fst st))) \<Longrightarrow>
   ref \<notin> set (mapKeys (RelateImages (fst (relateImage e engine st img))))"
  using relateImage_cases [of e engine "fst st" "snd st" img]
  by (auto simp: appendPlatforms_keys split: if_splits)

text \<open>The state after the install images of a bundle were inspected.\<close>

lemma gathered_unfold:
  "gathered e r b cs =
     foldl (relateImage e (ContainerEngine (Flags r)))
       ((fst (addDataFromInstallImages e r (labelled e b, cs)))\<lparr>RelateImages := []\<rparr>,
        snd (addDataFromInstallImages e r (labelled e b, cs)))
       (RelatedImages (BundleCSV b))"
proof -
  obtain mb1 cs1 where st1: "addDataFromInstallImages e r (labelled e b, cs) = (mb1, cs1)"
    by (cases "addDataFromInstallImages e r (labelled e b, cs)")
  have "BundleCSV (BundleData mb1) = BundleCSV b"
    using addDataFromInstallImages_csv [of e r "(labelled e b, cs)"]
    by (simp add: st1 labelled_simps(5))
  then show ?thesis
    by (simp add: gathered_def st1 addDataFromRelateImages_def)
qed

lemma installed_unfold:
  "addDataFromInstallImages e r (labelled e b, cs) =
     foldl (installImage e (ContainerEngine (Flags r)))
       ((labelled e b)\<lparr>InstallImages := []\<rparr>, cs) (concat (DeploymentSpecs (BundleCSV b)))"
  by (simp add: addDataFromInstallImages_def foldl_foldl_concat labelled_simps(5))

lemma auditBundle_log: "snd (auditBundle e r b cs) = snd (gathered e r b cs)"
  by (simp add: auditBundle_eq extractBundle_simps)

lemma log_parts:
  "length cs \<le> length (snd (addDataFromInstallImages e r (labelled e b, cs)))"
  "\<exists>more. snd (gathered e r b cs) = snd (addDataFromInstallImages e r (labelled e b, cs)) @ more"
proof -
  obtain more where "snd (addDataFromInstallImages e r (labelled e b, cs)) = cs @ more"
    using inspects_extends [OF inspects_installImage,
        of e "ContainerEngine (Flags r)" "((labelled e b)\<lparr>InstallImages := []\<rparr>, cs)"
           "concat (DeploymentSpecs (BundleCSV b))"]
    by (auto simp: installed_unfold)
  then show "length cs \<le> length (snd (addDataFromInstallImages e r (labelled e b, cs)))"
    by simp
  show "\<exists>more. snd (gathered e r b cs) = snd (addDataFromInstallImages e r (labelled e b, cs)) @ more"
    using inspects_extends [OF inspects_relateImage,
        of e "ContainerEngine (Flags r)"
           "((fst (addDataFromInstallImages e r (labelled e b, cs)))\<lparr>RelateImages := []\<rparr>,
             snd (addDataFromInstallImages e r (labelled e b, cs)))"
           "RelatedImages (BundleCSV b)"]
    by (simp add: gathered_unfold)
qed

lemma allCallsFail_parts:
  assumes "allCallsFail e cs (snd (gathered e r b cs)) ref"
  shows "allCallsFail e cs (snd (addDataFromInstallImages e r (labelled e b, cs))) ref"
    and "allCallsFail e (snd (addDataFromInstallImages e r (labelled e b, cs)))
           (snd (gathered e r b cs)) ref"
proof -
  obtain more where m: "snd (gathered e r b cs)
      = snd (addDataFromInstallImages e r (labelled e b, cs)) @ more"
    using log_parts(2) by blast
  show "allCallsFail e cs (snd (addDataFromInstallImages e r (labelled e b, cs))) ref"
    using assms unfolding m by (rule allCallsFail_prefix)
  show "allCallsFail e (snd (addDataFromInstallImages e r (labelled e b, cs)))
           (snd (gathered e r b cs)) ref"
    using assms log_parts(1) by (rule allCallsFail_later)
qed

lemma failed_never_install_key:
  assumes "allCallsFail e cs (snd (gathered e r b cs)) ref"
  shows "ref \<notin> set (mapKeys (InstallImages (fst (gathered e r b cs))))"
proof -
  let ?eng = "ContainerEngine (Flags r)"
  let ?st0 = "((labelled e b)\<lparr>InstallImages := []\<rparr>, cs)"
  let ?I = "\<lambda>st :: MultiArchBundle \<times> calls. ref \<notin> set (mapKeys (InstallImages (fst st)))"
  have fail: "allCallsFail e (snd ?st0)
      (snd (foldl (installImage e ?eng) ?st0 (concat (DeploymentSpecs (BundleCSV b))))) ref"
    using allCallsFail_parts(1) [OF assms] by (simp add: installed_unfold)
  have "?I (foldl (installImage e ?eng) ?st0 (concat (DeploymentSpecs (BundleCSV b))))"
  proof (rule fold_never [OF inspects_installImage _ _ _ fail])
    show "?I ?st0" by (simp add: mapKeys_def)
  next
    fix st :: "MultiArchBundle \<times> calls" and img
    assume "img \<noteq> ref" and "?I st"
    then show "?I (installImage e ?eng st img)" by (rule installImage_other_key)
  next
    fix st :: "MultiArchBundle \<times> calls"
    assume "isl (Inspect e (length (snd st)) ref ?eng)"
      and "isl (Inspect e (Suc (length (snd st))) ref ?eng)" and "?I st"
    then show "?I (installImage e ?eng st ref)" by (simp add: installImage_failed)
  qed
  then have "ref \<notin> set (mapKeys (InstallImages (fst (addDataFromInstallImages e r (labelled e b, cs)))))"
    by (simp add: installed_unfold)
  then show ?thesis
    by (simp add: gathered_def addDataFromRelateImages_frame)
qed

lemma failed_never_relate_key:
  assumes "allCallsFail e cs (snd (gathered e r b cs)) ref"
  shows "ref \<notin> set (mapKeys (RelateImages (fst (gathered e r b cs))))"
proof -
  let ?eng = "ContainerEngine (Flags r)"
  let ?st1 = "addDataFromInstallImages e r (labelled e b, cs)"
  let ?st0 = "((fst ?st1)\<lparr>RelateImages := []\<rparr>, snd ?st1)"
  let ?I = "\<lambda>st :: MultiArchBundle \<times> calls. ref \<notin> set (mapKeys (RelateImages (fst st)))"
  have fail: "allCallsFail e (snd ?st0)
      (snd (foldl (relateImage e ?eng) ?st0 (RelatedImages (BundleCSV b)))) ref"
    using allCallsFail_parts(2) [OF assms] by (simp add: gathered_unfold)
  have "?I (foldl (relateImage e ?eng) ?st0 (RelatedImages (BundleCSV b)))"
  proof (rule fold_never [OF inspects_relateImage _ _ _ fail])
    show "?I ?st0" by (simp add: mapKeys_def)
  next
    fix st :: "MultiArchBundle \<times> calls" and img
    assume "img \<noteq> ref" and "?I st"
    then show "?I (relateImage e ?eng st img)" by (rule relateImage_other_key)
  next
    fix st :: "MultiArchBundle \<times> calls"
    assume "isl (Inspect e (length (snd st)) ref ?eng)"
      and "isl (Inspect e (Suc (length (snd st))) ref ?eng)" and "?I st"
    then show "?I (relateImage e ?eng st ref)" by (simp add: relateImage_failed)
  qed
  then show ?thesis by (simp add: gathered_unfold)
qed

lemma findings_of_validated:
  "digestFindings (validate e mb) = digestFindings mb"
  "labelFindings e (validate e mb) = labelFindings e mb"
  "annotationFindings e (validate e mb) = annotationFindings e mb"
  "coverageFindings (validate e mb) = coverageFindings mb"
  by (simp_all add: digestFindings_def labelFindings_def annotationFindings_def
        coverageFindings_def validate_simps Let_def)

lemma auditBundle_Validations:
  "Validations (fst (auditBundle e r b cs)) =
     Validations (fst (extractBundle e r b cs))
       @ digestFindings (fst (auditBundle e r b cs))
       @ labelFindings e (fst (auditBundle e r b cs))
       @ annotationFindings e (fst (auditBundle e r b cs))
       @ coverageFindings (fst (auditBundle e r b cs))"
proof -
  let ?mb = "setMultArchSupport (fst (extractBundle e r b cs))"
  have "Validations (validate e ?mb) =
      Validations ?mb @ digestFindings ?mb @ labelFindings e ?mb @ annotationFindings e ?mb
        @ coverageFindings ?mb"
    by (simp add: validate_eq)
  then show ?thesis
    by (simp add: auditBundle_eq findings_of_validated setMultArchSupport_simps)
qed

lemma auditBundle_images:
  "InstallImages (fst (auditBundle e r b cs)) = InstallImages (fst (gathered e r b cs))"
  "RelateImages (fst (auditBundle e r b cs)) = RelateImages (fst (gathered e r b cs))"
  "BundleData (fst (auditBundle e r b cs)) = BundleData (fst (gathered e r b cs))"
  by (simp_all add: auditBundle_eq validate_simps setMultArchSupport_simps extractBundle_simps
        extractBundle_gathered checkSupport_def)

lemma unpinned_subset: "set (unpinned m) \<subseteq> set (mapKeys m)"
  by (auto simp: unpinned_def)

text \<open>
  C9. When every inspector call made for an image reference during the audit of a bundle
  fails, the reference is a key of neither image map afterwards, it is not among the
  references that \<open>checkSHA\<close> reports, and no pair that \<open>checkMissingArchtype\<close>
  reports names it; the findings of the audit are those of the extraction followed by
  those of the four checks. The step that inspects an image and fails twice leaves the
  image map as it was.
\<close>

theorem failed_image_never_a_key:
  "(allCallsFail e cs (snd (auditBundle e r b cs)) ref \<longrightarrow>
      ref \<notin> set (mapKeys (InstallImages (fst (auditBundle e r b cs))))
      \<and> ref \<notin> set (mapKeys (RelateImages (fst (auditBundle e r b cs))))
      \<and> ref \<notin> set (unpinned (InstallImages (fst (auditBundle e r b cs))))
      \<and> ref \<notin> set (unpinned (RelateImages (fst (auditBundle e r b cs))))
      \<and> ref \<notin> fst ` set (missingPairs (InstallImages (fst (auditBundle e r b cs)))
                             (mapKeys (Supported (fst (auditBundle e r b cs)))))
      \<and> ref \<notin> fst ` set (missingPairs (RelateImages (fst (auditBundle e r b cs)))
                             (mapKeys (Supported (fst (auditBundle e r b cs))))))
   \<and> Validations (fst (auditBundle e r b cs))
       = Validations (fst (extractBundle e r b cs))
         @ digestFindings (fst (auditBundle e r b cs))
         @ labelFindings e (fst (auditBundle e r b cs))
         @ annotationFindings e (fst (auditBundle e r b cs))
         @ coverageFindings (fst (auditBundle e r b cs))
   \<and> (isl (Inspect e (length cs) img engine) \<and> isl (Inspect e (Suc (length cs)) img engine) \<longrightarrow>
        InstallImages (fst (installImage e engine (mb, cs) img)) = InstallImages mb
        \<and> RelateImages (fst (relateImage e engine (mb, cs) img)) = RelateImages mb)"
proof (intro conjI impI)
  assume a: "allCallsFail e cs (snd (auditBundle e r b cs)) ref"
  then have g: "allCallsFail e cs (snd (gathered e r b cs)) ref"
    by (simp add: auditBundle_log)
  show i: "ref \<notin> set (mapKeys (InstallImages (fst (auditBundle e r b cs))))"
    using failed_never_install_key [OF g] by (simp add: auditBundle_images)
  show k: "ref \<notin> set (mapKeys (RelateImages (fst (auditBundle e r b cs))))"
    using failed_never_relate_key [OF g] by (simp add: auditBundle_images)
  show "ref \<notin> set (unpinned (InstallImages (fst (auditBundle e r b cs))))"
    using i unpinned_subset by blast
  show "ref \<notin> set (unpinned (RelateImages (fst (auditBundle e r b cs))))"
    using k unpinned_subset by blast
  show "ref \<notin> fst ` set (missingPairs (InstallImages (fst (auditBundle e r b cs)))
                             (mapKeys (Supported (fst (auditBundle e r b cs)))))"
    using i missingPairs_fst by blast
  show "ref \<notin> fst ` set (missingPairs (RelateImages (fst (auditBundle e r b cs)))
                             (mapKeys (Supported (fst (auditBundle e r b cs)))))"
    using k missingPairs_fst by blast
next
  show "Validations (fst (auditBundle e r b cs))
       = Validations (fst (extractBundle e r b cs))
         @ digestFindings (fst (auditBundle e r b cs))
         @ labelFindings e (fst (auditBundle e r b cs))
         @ annotationFindings e (fst (auditBundle e r b cs))
         @ coverageFindings (fst (auditBundle e r b cs))"
    by (rule auditBundle_Validations)
next
  assume "isl (Inspect e (length cs) img engine) \<and> isl (Inspect e (Suc (length cs)) img engine)"
  then show "InstallImages (fst (installImage e engine (mb, cs) img)) = InstallImages mb"
    and "RelateImages (fst (relateImage e engine (mb, cs) img)) = RelateImages mb"
    using installImage_failed [of e "(mb, cs)" img engine]
      relateImage_failed [of e "(mb, cs)" img engine]
    by simp_all
qed

theorem failed_image_never_a_key_witness:
  "allCallsFail exEnv [] (snd (auditBundle exEnv exReport exBundle [])) ''registry/broken''
   \<and> HasMultArchSupport (fst (auditBundle exEnv exReport exBundle []))
   \<and> \<not> Contains ''registry/broken'' ''@sha256''
   \<and> ''registry/broken'' \<notin> set (mapKeys (InstallImages (fst (auditBundle exEnv exReport exBundle []))))
   \<and> ''registry/broken'' \<notin> set (unpinned (InstallImages (fst (auditBundle exEnv exReport exBundle []))))
   \<and> ''registry/broken''
        \<notin> fst ` set (missingPairs (InstallImages (fst (auditBundle exEnv exReport exBundle [])))
                        (mapKeys (Supported (fst (auditBundle exEnv exReport exBundle [])))))
   \<and> InstallImages (fst (installImage exEnv ''docker'' (newMultiArchBundle exBundle, [])
                           ''registry/broken''))
       = InstallImages (newMultiArchBundle exBundle)"
proof -
  note t = failed_image_never_a_key [where e = exEnv and cs = "[]" and r = exReport
      and b = exBundle and ref = "''registry/broken''" and img = "''registry/broken''"
      and engine = "''docker''" and mb = "newMultiArchBundle exBundle"]
  have h1: "allCallsFail exEnv [] (snd (auditBundle exEnv exReport exBundle [])) ''registry/broken''"
    by code_simp
  have h2: "isl (Inspect exEnv (length []) ''registry/broken'' ''docker'')
            \<and> isl (Inspect exEnv (Suc (length [])) ''registry/broken'' ''docker'')"
    by code_simp
  have h3: "HasMultArchSupport (fst (auditBundle exEnv exReport exBundle []))" by code_simp
  have h4: "\<not> Contains ''registry/broken'' ''@sha256''" by code_simp
  note c = t [THEN conjunct1, THEN mp, OF h1]
  note s = t [THEN conjunct2, THEN conjunct2, THEN mp, OF h2]
  show ?thesis
    using h1 h3 h4 c [THEN conjunct1] c [THEN conjunct2, THEN conjunct2, THEN conjunct1]
      c [THEN conjunct2, THEN conjunct2, THEN conjunct2, THEN conjunct2, THEN conjunct1]
      s [THEN conjunct1]
    by (intro conjI)
qed

subsection \<open>What a failed inspection leaves behind\<close>

lemma installImage_errors_grow:
  "length (AuditErrors (BundleData (fst st)))
     \<le> length (AuditErrors (BundleData (fst (installImage e engine st img))))"
  using installImage_cases [of e engine "fst st" "snd st" img] by auto

lemma relateImage_errors_grow:
  "length (AuditErrors (BundleData (fst st)))
     \<le> length (AuditErrors (BundleData (fst (relateImage e engine st img))))"
  using relateImage_cases [of e engine "fst st" "snd st" img] by auto

lemma relateImage_findings_grow:
  "set (Validations (fst st)) \<subseteq> set (Validations (fst (relateImage e engine st img)))"
  using relateImage_cases [of e engine "fst st" "snd st" img] by auto

lemma failed_install_logs_error:
  assumes mem: "ref \<in> set (concat (DeploymentSpecs (BundleCSV b)))"
    and fail: "allCallsFail e cs (snd (gathered e r b cs)) ref"
  shows "length (AuditErrors b) < length (AuditErrors (BundleData (fst (gathered e r b cs))))"
proof -
  let ?eng = "ContainerEngine (Flags r)"
  let ?st0 = "((labelled e b)\<lparr>InstallImages := []\<rparr>, cs)"
  let ?Q = "\<lambda>st :: MultiArchBundle \<times> calls.
              length (AuditErrors b) < length (AuditErrors (BundleData (fst st)))"
  let ?I = "\<lambda>st :: MultiArchBundle \<times> calls.
              length (AuditErrors b) \<le> length (AuditErrors (BundleData (fst st)))"
  have f: "allCallsFail e (snd ?st0)
      (snd (foldl (installImage e ?eng) ?st0 (concat (DeploymentSpecs (BundleCSV b))))) ref"
    using allCallsFail_parts(1) [OF fail] by (simp add: installed_unfold)
  have "?Q (foldl (installImage e ?eng) ?st0 (concat (DeploymentSpecs (BundleCSV b))))"
  proof (rule fold_once_from [OF inspects_installImage _ _ _ _ mem f, where I = ?I])
    show "?I ?st0" by (simp add: labelled_simps(5))
  next
    fix st :: "MultiArchBundle \<times> calls" and img
    assume "?Q st"
    then show "?Q (installImage e ?eng st img)"
      using installImage_errors_grow [of st e ?eng img] by linarith
  next
    fix st :: "MultiArchBundle \<times> calls" and img
    assume "?I st"
    then show "?I (installImage e ?eng st img)"
      using installImage_errors_grow [of st e ?eng img] by linarith
  next
    fix st :: "MultiArchBundle \<times> calls"
    assume "isl (Inspect e (length (snd st)) ref ?eng)"
      and "isl (Inspect e (Suc (length (snd st))) ref ?eng)" and "?I st"
    then show "?Q (installImage e ?eng st ref)" by (simp add: installImage_failed)
  qed
  then have q1: "?Q (addDataFromInstallImages e r (labelled e b, cs))"
    by (simp add: installed_unfold)
  let ?st1 = "addDataFromInstallImages e r (labelled e b, cs)"
  have "?Q (foldl (relateImage e ?eng) ((fst ?st1)\<lparr>RelateImages := []\<rparr>, snd ?st1)
              (RelatedImages (BundleCSV b)))"
  proof (rule foldl_inv)
    show "?Q ((fst ?st1)\<lparr>RelateImages := []\<rparr>, snd ?st1)" using q1 by simp
  next
    fix s :: "MultiArchBundle \<times> calls" and x
    assume "?Q s"
    then show "?Q (relateImage e ?eng s x)"
      using relateImage_errors_grow [of s e ?eng x] by linarith
  qed
  then show ?thesis by (simp add: gathered_unfold)
qed

lemma failed_related_reported:
  assumes mem: "ref \<in> set (RelatedImages (BundleCSV b))"
    and fail: "allCallsFail e cs (snd (gathered e r b cs)) ref"
  shows "\<exists>err. inspectFailedMsg ref err \<in> set (Validations (fst (gathered e r b cs)))"
proof -
  let ?eng = "ContainerEngine (Flags r)"
  let ?st1 = "addDataFromInstallImages e r (labelled e b, cs)"
  let ?st0 = "((fst ?st1)\<lparr>RelateImages := []\<rparr>, snd ?st1)"
  let ?Q = "\<lambda>st :: MultiArchBundle \<times> calls.
              \<exists>err. inspectFailedMsg ref err \<in> set (Validations (fst st))"
  have f: "allCallsFail e (snd ?st0)
      (snd (foldl (relateImage e ?eng) ?st0 (RelatedImages (BundleCSV b)))) ref"
    using allCallsFail_parts(2) [OF fail] by (simp add: gathered_unfold)
  have "?Q (foldl (relateImage e ?eng) ?st0 (RelatedImages (BundleCSV b)))"
  proof (rule fold_once_from [OF inspects_relateImage _ _ _ _ mem f, where I = "\<lambda>st. True"])
    fix st :: "MultiArchBundle \<times> calls" and img
    assume "?Q st"
    then show "?Q (relateImage e ?eng st img)"
      using relateImage_findings_grow [of st e ?eng img] by blast
  next
    fix st :: "MultiArchBundle \<times> calls"
    assume "isl (Inspect e (length (snd st)) ref ?eng)"
      and "isl (Inspect e (Suc (length (snd st))) ref ?eng)"
    then have "inspectFailedMsg ref (projl (Inspect e (Suc (length (snd st))) ref ?eng))
                 \<in> set (Validations (fst (relateImage e ?eng st ref)))"
      by (simp add: relateImage_failed)
    then show "?Q (relateImage e ?eng st ref)" by blast
  qed simp_all
  then show ?thesis by (simp add: gathered_unfold)
qed

text \<open>
  C1 (amended). The step that inspects an install image and fails on both attempts appends
  exactly one entry, the error text of the second attempt, to \<open>AuditErrors\<close> and changes
  nothing else. When every inspector call made for an install image during the audit of a
  bundle fails, the audit (a total function) ends with a longer error log, the image is not
  a key of the install-image map, so that its platform list reads as empty, and the
  coverage check, which ranges over the keys, reports no pair for that image.
\<close>

theorem failed_install_image_is_skipped:
  "(isl (Inspect e (length cs) img engine) \<and> isl (Inspect e (Suc (length cs)) img engine) \<longrightarrow>
      fst (installImage e engine (mb, cs) img)
        = mb\<lparr>BundleData := (BundleData mb)
               \<lparr>AuditErrors := AuditErrors (BundleData mb)
                                @ [projl (Inspect e (Suc (length cs)) img engine)]\<rparr>\<rparr>)
   \<and> (ref \<in> set (concat (DeploymentSpecs (BundleCSV b)))
        \<and> allCallsFail e cs (snd (auditBundle e r b cs)) ref \<longrightarrow>
      length (AuditErrors b) < length (AuditErrors (BundleData (fst (auditBundle e r b cs))))
      \<and> ref \<notin> set (mapKeys (InstallImages (fst (auditBundle e r b cs))))
      \<and> mapGet (InstallImages (fst (auditBundle e r b cs))) ref = []
      \<and> filter (\<lambda>p. fst p = ref)
           (missingPairs (InstallImages (fst (auditBundle e r b cs)))
              (mapKeys (Supported (fst (auditBundle e r b cs))))) = [])"
proof (intro conjI impI)
  assume "isl (Inspect e (length cs) img engine) \<and> isl (Inspect e (Suc (length cs)) img engine)"
  then show "fst (installImage e engine (mb, cs) img)
        = mb\<lparr>BundleData := (BundleData mb)
               \<lparr>AuditErrors := AuditErrors (BundleData mb)
                                @ [projl (Inspect e (Suc (length cs)) img engine)]\<rparr>\<rparr>"
    using installImage_failed [of e "(mb, cs)" img engine]
    by (simp add: appendAuditError_def)
next
  assume a: "ref \<in> set (concat (DeploymentSpecs (BundleCSV b)))
        \<and> allCallsFail e cs (snd (auditBundle e r b cs)) ref"
  then have g: "allCallsFail e cs (snd (gathered e r b cs)) ref"
    by (simp add: auditBundle_log)
  show "length (AuditErrors b) < length (AuditErrors (BundleData (fst (auditBundle e r b cs))))"
    using failed_install_logs_error [OF _ g] a by (simp add: auditBundle_images)
  show k: "ref \<notin> set (mapKeys (InstallImages (fst (auditBundle e r b cs))))"
    using failed_never_install_key [OF g] by (simp add: auditBundle_images)
  show "mapGet (InstallImages (fst (auditBundle e r b cs))) ref = []"
    using k by (rule mapGet_absent)
  show "filter (\<lambda>p. fst p = ref)
           (missingPairs (InstallImages (fst (auditBundle e r b cs)))
              (mapKeys (Supported (fst (auditBundle e r b cs))))) = []"
    using k by (rule missingPairs_other)
qed

theorem failed_install_image_is_skipped_witness:
  "''registry/broken'' \<in> set (concat (DeploymentSpecs (BundleCSV exBundle)))
   \<and> allCallsFail exEnv [] (snd (auditBundle exEnv exReport exBundle [])) ''registry/broken''
   \<and> length (AuditErrors exBundle)
        < length (AuditErrors (BundleData (fst (auditBundle exEnv exReport exBundle []))))
   \<and> mapGet (InstallImages (fst (auditBundle exEnv exReport exBundle []))) ''registry/broken'' = []
   \<and> filter (\<lambda>p. fst p = ''registry/broken'')
        (missingPairs (InstallImages (fst (auditBundle exEnv exReport exBundle [])))
           (mapKeys (Supported (fst (auditBundle exEnv exReport exBundle []))))) = []
   \<and> fst (installImage exEnv ''docker'' (newMultiArchBundle exBundle, []) ''registry/broken'')
       = (newMultiArchBundle exBundle)
           \<lparr>BundleData := (BundleData (newMultiArchBundle exBundle))
              \<lparr>AuditErrors := AuditErrors (BundleData (newMultiArchBundle exBundle))
                   @ [''manifest unknown'']\<rparr>\<rparr>"
proof -
  note t = failed_install_image_is_skipped [where e = exEnv and cs = "[]" and r = exReport
      and b = exBundle and ref = "''registry/broken''" and img = "''registry/broken''"
      and engine = "''docker''" and mb = "newMultiArchBundle exBundle"]
  have h1: "''registry/broken'' \<in> set (concat (DeploymentSpecs (BundleCSV exBundle)))
        \<and> allCallsFail exEnv [] (snd (auditBundle exEnv exReport exBundle [])) ''registry/broken''"
    by code_simp
  have h2: "isl (Inspect exEnv (length []) ''registry/broken'' ''docker'')
            \<and> isl (Inspect exEnv (Suc (length [])) ''registry/broken'' ''docker'')"
    by code_simp
  have p: "projl (Inspect exEnv (Suc (length ([] :: calls))) ''registry/broken'' ''docker'')
             = ''manifest unknown''"
    by code_simp
  note s = t [THEN conjunct1, THEN mp, OF h2, unfolded p]
  note c = t [THEN conjunct2, THEN mp, OF h1]
  show ?thesis
    using h1 [THEN conjunct1] h1 [THEN conjunct2] c [THEN conjunct1]
      c [THEN conjunct2, THEN conjunct2, THEN conjunct1]
      c [THEN conjunct2, THEN conjunct2, THEN conjunct2] s
    by (intro conjI)
qed

theorem failed_install_image_counterexample:
  "HasMultArchSupport (fst (auditBundle exEnv exReport exBundle []))
   \<and> mapKeys (Supported (fst (auditBundle exEnv exReport exBundle []))) = [''amd64'', ''s390x'']
   \<and> snd (auditBundle exEnv exReport exBundle [])
       = [(''registry/x:latest'', ''docker''), (''registry/broken'', ''docker''),
          (''registry/broken'', ''docker''), (''registry/x:latest'', ''docker'')]
   \<and> AuditErrors (BundleData (fst (auditBundle exEnv exReport exBundle []))) = [''manifest unknown'']
   \<and> archMsg ''install'' ''op.v1'' ''registry/broken'' ''amd64''
        \<notin> set (Validations (fst (auditBundle exEnv exReport exBundle [])))
   \<and> archMsg ''install'' ''op.v1'' ''registry/broken'' ''s390x''
        \<notin> set (Validations (fst (auditBundle exEnv exReport exBundle [])))"
  by code_simp

text \<open>
  C10. A related image whose every inspection fails leaves a finding in the findings of
  the extraction, where \<open>HasMultArchSupport\<close> is still false whatever \<open>Supported\<close>
  holds; the audit keeps the findings of the extraction in front of those of its checks,
  so its findings are not empty. The bundle \<open>exBroken\<close> ends its audit with an empty
  \<open>Supported\<close>, \<open>HasMultArchSupport\<close> false and one finding.
\<close>

theorem related_failure_reported_without_multiarch:
  "(ref \<in> set (RelatedImages (BundleCSV b))
      \<and> allCallsFail e cs (snd (auditBundle e r b cs)) ref \<longrightarrow>
      (\<exists>err. inspectFailedMsg ref err \<in> set (Validations (fst (extractBundle e r b cs))))
      \<and> Validations (fst (auditBundle e r b cs)) \<noteq> [])
   \<and> \<not> HasMultArchSupport (fst (extractBundle e r b cs))
   \<and> take (length (Validations (fst (extractBundle e r b cs))))
        (Validations (fst (auditBundle e r b cs)))
       = Validations (fst (extractBundle e r b cs))
   \<and> \<not> HasMultArchSupport (fst (auditBundle exEnv exReport exBroken []))
   \<and> Supported (fst (auditBundle exEnv exReport exBroken [])) = []
   \<and> Validations (fst (auditBundle exEnv exReport exBroken []))
       = [''unable to inspect manifests for the image (registry/broken) : manifest unknown'']"
proof (intro conjI impI)
  assume a: "ref \<in> set (RelatedImages (BundleCSV b))
      \<and> allCallsFail e cs (snd (auditBundle e r b cs)) ref"
  then have g: "allCallsFail e cs (snd (gathered e r b cs)) ref"
    by (simp add: auditBundle_log)
  show x: "\<exists>err. inspectFailedMsg ref err \<in> set (Validations (fst (extractBundle e r b cs)))"
    using failed_related_reported [OF _ g] a by (simp add: extractBundle_simps)
  then have "Validations (fst (extractBundle e r b cs)) \<noteq> []" by auto
  then show "Validations (fst (auditBundle e r b cs)) \<noteq> []"
    by (subst auditBundle_Validations) simp
next
  show "\<not> HasMultArchSupport (fst (extractBundle e r b cs))"
    by (simp add: extractBundle_simps)
next
  show "take (length (Validations (fst (extractBundle e r b cs))))
        (Validations (fst (auditBundle e r b cs)))
       = Validations (fst (extractBundle e r b cs))"
    by (subst auditBundle_Validations) simp
next
  show "\<not> HasMultArchSupport (fst (auditBundle exEnv exReport exBroken []))"
    by code_simp
next
  show "Supported (fst (auditBundle exEnv exReport exBroken [])) = []"
    by code_simp
next
  show "Validations (fst (auditBundle exEnv exReport exBroken []))
       = [''unable to inspect manifests for the image (registry/broken) : manifest unknown'']"
    by code_simp
qed

theorem related_failure_reported_without_multiarch_witness:
  "''registry/broken'' \<in> set (RelatedImages (BundleCSV exBroken))
   \<and> allCallsFail exEnv [] (snd (auditBundle exEnv exReport exBroken [])) ''registry/broken''
   \<and> Validations (fst (auditBundle exEnv exReport exBroken [])) \<noteq> []"
proof -
  note t = related_failure_reported_without_multiarch [where e = exEnv and cs = "[]"
      and r = exReport and b = exBroken and ref = "''registry/broken''"]
  have h: "''registry/broken'' \<in> set (RelatedImages (BundleCSV exBroken))
      \<and> allCallsFail exEnv [] (snd (auditBundle exEnv exReport exBroken [])) ''registry/broken''"
    by code_simp
  note c = t [THEN conjunct1, THEN mp, OF h]
  show ?thesis
    using h [THEN conjunct1] h [THEN conjunct2] c [THEN conjunct2] by (intro conjI)
qed

section \<open>The report\<close>

lemma update_entries:
  "(k, v) \<in> set (AList.update k0 v0 m) \<Longrightarrow> (k, v) = (k0, v0) \<or> (k, v) \<in> set m"
  by (induction m) (auto split: if_splits)

lemma mapGet_entries: "x \<in> set (mapGet m k) \<Longrightarrow> \<exists>bs. (k, bs) \<in> set m \<and> x \<in> set bs"
proof -
  assume x: "x \<in> set (mapGet m k)"
  then obtain bs where bs: "map_of m k = Some bs"
    by (cases "map_of m k") (auto simp: mapGet_def)
  then have "(k, bs) \<in> set m" by (rule map_of_SomeD)
  moreover have "x \<in> set bs" using x bs by (simp add: mapGet_def)
  ultimately show ?thesis by blast
qed

lemma append_entry:
  assumes old: "\<And>k bs x. (k, bs) \<in> set m \<Longrightarrow> x \<in> set bs \<Longrightarrow> P k x"
    and new: "P k0 v"
    and mem: "(k, bs) \<in> set (AList.update k0 (mapGet m k0 @ [v]) m)" "x \<in> set bs"
  shows "P k x"
proof -
  have "(k, bs) = (k0, mapGet m k0 @ [v]) \<or> (k, bs) \<in> set m"
    by (rule update_entries [OF mem(1)])
  then show ?thesis
  proof (elim disjE)
    assume "(k, bs) = (k0, mapGet m k0 @ [v])"
    then have k: "k = k0" and bs: "bs = mapGet m k0 @ [v]" by simp_all
    show ?thesis
    proof (cases "x = v")
      case True
      show ?thesis unfolding k True by (rule new)
    next
      case False
      then have "x \<in> set (mapGet m k0)" using mem(2) bs by simp
      then have "\<exists>bs'. (k0, bs') \<in> set m \<and> x \<in> set bs'" by (rule mapGet_entries)
      then obtain bs' where b: "(k0, bs') \<in> set m" "x \<in> set bs'"
        by (elim exE conjE)
      show ?thesis unfolding k by (rule old [OF b])
    qed
  next
    assume "(k, bs) \<in> set m"
    then show ?thesis using mem(2) by (rule old)
  qed
qed

lemma append_entry_count:
  "length (filter P (allBundles (AList.update k (mapGet m k @ [v]) m))) =
     length (filter P (allBundles m)) + (if P v then 1 else 0)"
proof (induction m)
  case Nil
  then show ?case by (simp add: allBundles_def mapGet_def)
next
  case (Cons x m)
  obtain k' bs where x: "x = (k', bs)" by (cases x)
  show ?case
  proof (cases "k' = k")
    case True
    then show ?thesis by (simp add: x allBundles_def mapGet_def)
  next
    case False
    then have "mapGet (x # m) k = mapGet m k" by (simp add: x mapGet_def)
    then show ?thesis
      using Cons.IH False by (simp add: x allBundles_def)
  qed
qed

lemma mapHead_entries:
  assumes "(k, bs) \<in> set (mapHeadBundlesPerPackageWith cols)" and "c \<in> set bs"
  shows "c \<in> set cols \<and> IsHeadOfChannel c \<and> PackageName c = k"
proof -
  let ?P = "\<lambda>k c. c \<in> set cols \<and> IsHeadOfChannel c \<and> PackageName c = k"
  let ?I = "\<lambda>m :: Column list gomap. \<forall>k bs c. (k, bs) \<in> set m \<longrightarrow> c \<in> set bs \<longrightarrow> ?P k c"
  have "?I (mapHeadBundlesPerPackageWith cols)"
    unfolding mapHeadBundlesPerPackageWith_def
  proof (rule foldl_inv [where P = ?I])
    show "?I []" by simp
  next
    fix m :: "Column list gomap" and v
    assume v: "v \<in> set cols" and m: "?I m"
    show "?I (if IsHeadOfChannel v
              then AList.update (PackageName v) (mapGet m (PackageName v) @ [v]) m else m)"
    proof (cases "IsHeadOfChannel v")
      case True
      have "?I (AList.update (PackageName v) (mapGet m (PackageName v) @ [v]) m)"
      proof (intro allI impI)
        fix k bs c
        assume a: "(k, bs) \<in> set (AList.update (PackageName v) (mapGet m (PackageName v) @ [v]) m)"
          and b: "c \<in> set bs"
        show "?P k c"
        proof (rule append_entry [where P = ?P, OF _ _ a b])
          show "?P (PackageName v) v" using v True by simp
        next
          fix k' bs' x
          assume "(k', bs') \<in> set m" and "x \<in> set bs'"
          then show "?P k' x" by (rule m [rule_format])
        qed
      qed
      then show ?thesis unfolding if_P [OF True] .
    next
      case False
      show ?thesis unfolding if_not_P [OF False] by (rule m)
    qed
  qed
  from this [rule_format, OF assms] show ?thesis .
qed

lemma foldl_filter_count:
  assumes "\<And>s x. g (f s x) = g s + (if P x then 1 else (0::nat))"
  shows "g (foldl f s xs) = g s + length (filter P xs)"
  using assms by (induction xs arbitrary: s) auto

lemma mapHead_count:
  "length (filter P (allBundles (mapHeadBundlesPerPackageWith cols))) =
     length (filter (\<lambda>c. IsHeadOfChannel c \<and> P c) cols)"
proof -
  have "length (filter P (allBundles (foldl (\<lambda>m v. if IsHeadOfChannel v
                   then AList.update (PackageName v) (mapGet m (PackageName v) @ [v]) m
                   else m) [] cols))) =
        length (filter P (allBundles ([] :: Column list gomap)))
          + length (filter (\<lambda>c. IsHeadOfChannel c \<and> P c) cols)"
    by (rule foldl_filter_count [where g = "\<lambda>m. length (filter P (allBundles m))"])
       (simp add: append_entry_count)
  then show ?thesis by (simp add: mapHeadBundlesPerPackageWith_def allBundles_def)
qed

lemma mapHead_distinct: "distinct (mapKeys (mapHeadBundlesPerPackageWith cols))"
  unfolding mapHeadBundlesPerPackageWith_def
  by (rule foldl_inv [where P = "\<lambda>m. distinct (mapKeys m)"])
     (simp_all add: mapKeys_def distinct_update)

end
